theory Spec2Isabelle
  imports Main "HOL-Library.Word" "HOL-Library.Log_Nat" "HOL-Library.Monad_Syntax"
begin

unbundle bit_operations_syntax

section \<open>Single and double precision arithmetic of the load checks\<close>

text \<open>
  The table compares its load with \<^verbatim>\<open>const float MaxLoadBalance = 0.80\<close>.
  \<^verbatim>\<open>emplace\<close> divides two \<^verbatim>\<open>float\<close>s, \<^verbatim>\<open>rebalance\<close> two \<^verbatim>\<open>double\<close>s.
  Only non-negative values occur, so a floating point value is a non-negative rational,
  \<open>Infinity\<close> or \<open>NaN\<close>; every operation rounds its exact result to the nearest value
  with \<open>p\<close> significant bits, ties to even (\<open>p = 24\<close> for \<^verbatim>\<open>float\<close>, \<open>53\<close> for
  \<^verbatim>\<open>double\<close>). The quotients of two 64-bit sizes stay far inside the exponent range of
  both formats, so neither overflow nor subnormal numbers are modelled.
\<close>

datatype fp = Finite rat | Infinity | NaN

definition rne :: "rat \<Rightarrow> int" where
  "rne x = (if x - of_int \<lfloor>x\<rfloor> < 1 / 2 then \<lfloor>x\<rfloor>
            else if 1 / 2 < x - of_int \<lfloor>x\<rfloor> then \<lfloor>x\<rfloor> + 1
            else if even \<lfloor>x\<rfloor> then \<lfloor>x\<rfloor> else \<lfloor>x\<rfloor> + 1)"

definition expo :: "rat \<Rightarrow> int" where
  "expo x = (if 1 \<le> x then int (floorlog 2 (nat \<lfloor>x\<rfloor>)) - 1
             else - int (floorlog 2 (nat \<lceil>1 / x\<rceil> - 1)))"

definition fl :: "nat \<Rightarrow> rat \<Rightarrow> rat" where
  "fl p x = (if x \<le> 0 then 0
             else of_int (rne (x * 2 powi (int p - 1 - expo x))) * 2 powi (expo x + 1 - int p))"

definition to_float :: "nat \<Rightarrow> rat" where
  "to_float n = fl 24 (of_nat n)"

definition to_double :: "nat \<Rightarrow> rat" where
  "to_double n = fl 53 (of_nat n)"

definition fdiv :: "nat \<Rightarrow> rat \<Rightarrow> rat \<Rightarrow> fp" where
  "fdiv p x y = (if y = 0 then (if x = 0 then NaN else Infinity) else Finite (fl p (x / y)))"

fun fless :: "fp \<Rightarrow> fp \<Rightarrow> bool" where
  "fless (Finite a) (Finite b) = (a < b)"
| "fless (Finite a) Infinity = True"
| "fless _ _ = False"

fun fge :: "fp \<Rightarrow> fp \<Rightarrow> bool" where
  "fge (Finite a) (Finite b) = (b \<le> a)"
| "fge Infinity (Finite b) = True"
| "fge Infinity Infinity = True"
| "fge _ _ = False"

definition MaxLoadBalance :: rat where
  "MaxLoadBalance = fl 24 (fl 53 (4 / 5))"

section \<open>The table\<close>

text \<open>
  The template parameters of \<^verbatim>\<open>SimpleHashTable<Key, Value, MULTI, HashFunc, KeyEqual, BIG>\<close>.
  \<open>'kv\<close> is \<^verbatim>\<open>KeyValueType\<close> (the key itself for a set, the pair for a map) and \<open>getKey\<close>
  its key. \<^verbatim>\<open>BIG\<close> is the width \<open>'r\<close> of \<^verbatim>\<open>RedirectType\<close>: 32 bits, or 64 when \<^verbatim>\<open>BIG\<close>
  is set. \<open>rapid_mix\<close> comes from \<^verbatim>\<open>rapidhash.h\<close>, which is not among the sources, and
  is a parameter like the hash function.
\<close>

record ('kv, 'k) params =
  MULTI :: bool
  hasher :: "'k \<Rightarrow> 64 word"
  keyEqualFunc :: "'k \<Rightarrow> 'k \<Rightarrow> bool"
  getKey :: "'kv \<Rightarrow> 'k"
  is_arithmetic :: bool
  rapid_mix :: "64 word \<Rightarrow> 64 word \<Rightarrow> 64 word"

text \<open>
  \<^verbatim>\<open>KVStorageType\<close> is \<^verbatim>\<open>std::list<KeyValueType>\<close> in a multi table and
  \<^verbatim>\<open>KeyValueType\<close> otherwise; the latter is kept as a one-element list.
\<close>

record (overloaded) ('kv, 'k, 'r) table =
  fastHashInfo :: "8 word list"
  redirectInfo :: "('r word \<times> 'r word) list"
  arr :: "'kv list list"
  extraKeyStorage :: "'k list"
  totalElements :: "64 word"
  rehashCounter :: "64 word"

text \<open>
  \<^verbatim>\<open>SimpleHashTableIterator\<close> without its pointer to the table. A list iterator is the
  position in the list \<^verbatim>\<open>arr[index]\<close>; \<open>None\<close> is the default-constructed one.
\<close>

record iterator =
  all :: bool
  index :: nat
  listIterator :: "nat option"
  it_rehashCounter :: "64 word"
  bucketIndex :: "64 word"

datatype error = TOO_LARGE

text \<open>
  Every operation returns an \<open>option\<close>. \<open>None\<close> is a call without a defined result:
  a read or write past the end of a vector, a modulo by zero, \<^verbatim>\<open>back()\<close> of an empty
  container, or a loop that never ends.
\<close>

definition vec_at :: "'a list \<Rightarrow> nat \<Rightarrow> 'a option" where
  "vec_at xs i = (if i < length xs then Some (xs ! i) else None)"

definition vec_put :: "'a list \<Rightarrow> nat \<Rightarrow> 'a \<Rightarrow> 'a list option" where
  "vec_put xs i v = (if i < length xs then Some (xs[i := v]) else None)"

definition vec_back :: "'a list \<Rightarrow> 'a option" where
  "vec_back xs = (if xs = [] then None else Some (last xs))"

definition umod :: "nat \<Rightarrow> nat \<Rightarrow> nat option" where
  "umod a b = (if b = 0 then None else Some (a mod b))"

definition VALID_BIT :: "8 word" where
  "VALID_BIT = 0x80"

definition UINT_MAX :: nat where
  "UINT_MAX = 4294967295"

subsection \<open>Constructors, clear, size\<close>

definition SimpleHashTable :: "('kv, 'k, 'r::len) table" where
  "SimpleHashTable = \<lparr>fastHashInfo = [], redirectInfo = [], arr = [], extraKeyStorage = [],
     totalElements = 0, rehashCounter = 0\<rparr>"

definition SimpleHashTable_init :: "nat \<Rightarrow> ('kv, 'k, 'r::len) table" where
  "SimpleHashTable_init initSize =
     (let initSize' = (if initSize < 1024 then 1024 else initSize)
      in \<lparr>fastHashInfo = replicate initSize' 0, redirectInfo = replicate initSize' (0, 0),
          arr = [], extraKeyStorage = [], totalElements = 0, rehashCounter = 0\<rparr>)"

definition clear :: "('kv, 'k, 'r::len) table \<Rightarrow> ('kv, 'k, 'r) table" where
  "clear t = t\<lparr>fastHashInfo := [], redirectInfo := [], arr := [], extraKeyStorage := [],
     totalElements := 0, rehashCounter := rehashCounter t + 1\<rparr>"

definition fastClear :: "('kv, 'k, 'r::len) table \<Rightarrow> ('kv, 'k, 'r) table" where
  "fastClear t = t\<lparr>fastHashInfo := replicate (length (fastHashInfo t)) 0,
     redirectInfo := replicate (length (redirectInfo t)) (0, 0),
     arr := [], extraKeyStorage := [],
     totalElements := 0, rehashCounter := rehashCounter t + 1\<rparr>"

definition getTotalBuckets :: "('kv, 'k, 'r::len) table \<Rightarrow> nat" where
  "getTotalBuckets t = length (fastHashInfo t)"

definition size_table :: "('kv, 'k, 'r::len) table \<Rightarrow> 64 word" where
  "size_table t = totalElements t"

subsection \<open>Iterators\<close>

text \<open>
  The three-argument constructor. In a multi table it reads \<^verbatim>\<open>ptr->arr[index].begin()\<close>
  when \<^verbatim>\<open>index < ptr->size()\<close>, and \<^verbatim>\<open>size()\<close> is \<open>totalElements\<close>, not \<^verbatim>\<open>arr.size()\<close>.
\<close>

definition Iterator :: "('kv, 'k) params \<Rightarrow> ('kv, 'k, 'r::len) table \<Rightarrow> nat \<Rightarrow> bool \<Rightarrow> iterator option" where
  "Iterator P t i a =
     (if MULTI P \<and> i < unat (size_table t)
      then do { l \<leftarrow> vec_at (arr t) i;
                Some \<lparr>all = a, index = i, listIterator = Some 0,
                      it_rehashCounter = rehashCounter t, bucketIndex = - 1\<rparr> }
      else Some \<lparr>all = a, index = i, listIterator = None,
                 it_rehashCounter = rehashCounter t, bucketIndex = - 1\<rparr>)"

definition Iterator4 :: "('kv, 'k, 'r::len) table \<Rightarrow> nat \<Rightarrow> bool \<Rightarrow> nat option \<Rightarrow> iterator" where
  "Iterator4 t i a desiredListIterator =
     \<lparr>all = a, index = i, listIterator = desiredListIterator,
      it_rehashCounter = rehashCounter t, bucketIndex = - 1\<rparr>"

definition begin_it :: "('kv, 'k) params \<Rightarrow> ('kv, 'k, 'r::len) table \<Rightarrow> iterator option" where
  "begin_it P t = Iterator P t 0 True"

definition end_it :: "('kv, 'k) params \<Rightarrow> ('kv, 'k, 'r::len) table \<Rightarrow> iterator option" where
  "end_it P t = Iterator P t (length (arr t)) True"

definition it_eq :: "('kv, 'k) params \<Rightarrow> iterator \<Rightarrow> iterator \<Rightarrow> bool" where
  "it_eq P a b = (if MULTI P then index a = index b \<and> listIterator a = listIterator b
                  else index a = index b)"

text \<open>\<^verbatim>\<open>it->first\<close>: the key of the element the iterator points to.\<close>

definition it_key :: "('kv, 'k) params \<Rightarrow> ('kv, 'k, 'r::len) table \<Rightarrow> iterator \<Rightarrow> 'k option" where
  "it_key P t it =
     do { l \<leftarrow> vec_at (arr t) (index it);
          if MULTI P
          then (case listIterator it of None \<Rightarrow> None
                | Some p \<Rightarrow> do { v \<leftarrow> vec_at l p; Some (getKey P v) })
          else do { v \<leftarrow> vec_back l; Some (getKey P v) } }"

subsection \<open>Hashes and buckets\<close>

definition extractPartialHash :: "('kv, 'k) params \<Rightarrow> 64 word \<Rightarrow> 8 word" where
  "extractPartialHash P hash = ucast (rapid_mix P hash 0x9ddfea08eb382d69 OR ucast VALID_BIT)"

definition extractPartialHashEx :: "64 word \<Rightarrow> 'r::len word" where
  "extractPartialHashEx hash = ucast hash"

definition getLocationEmpty :: "8 word list \<Rightarrow> nat \<Rightarrow> bool option" where
  "getLocationEmpty externalArr loc = do { c \<leftarrow> vec_at externalArr loc; Some (c = 0) }"

definition getPartialHash :: "('kv, 'k, 'r::len) table \<Rightarrow> nat \<Rightarrow> 8 word option" where
  "getPartialHash t loc = vec_at (fastHashInfo t) loc"

definition getPartialHashEx :: "('kv, 'k, 'r::len) table \<Rightarrow> nat \<Rightarrow> 'r word option" where
  "getPartialHashEx t loc = do { p \<leftarrow> vec_at (redirectInfo t) loc; Some (fst p) }"

definition getRedirectInfo :: "('kv, 'k, 'r::len) table \<Rightarrow> nat \<Rightarrow> 'r word option" where
  "getRedirectInfo t loc = do { p \<leftarrow> vec_at (redirectInfo t) loc; Some (snd p) }"

definition comparePartialHashEx ::
  "('kv, 'k) params \<Rightarrow> ('kv, 'k, 'r::len) table \<Rightarrow> nat \<Rightarrow> 'r word \<Rightarrow> bool option" where
  "comparePartialHashEx P t loc h =
     (if is_arithmetic P then Some True
      else do { s \<leftarrow> getPartialHashEx t loc; Some (s = h) })"

definition getDistanceFromDesiredSpot :: "('kv, 'k, 'r::len) table \<Rightarrow> nat \<Rightarrow> 'r word option" where
  "getDistanceFromDesiredSpot t loc =
     do { hash \<leftarrow> getPartialHashEx t loc;
          desiredLocation \<leftarrow> umod (unat hash) (length (fastHashInfo t));
          Some (of_nat (if desiredLocation \<le> loc then loc - desiredLocation
                        else loc + length (fastHashInfo t) - desiredLocation)) }"

text \<open>
  \<^verbatim>\<open>getKey\<close> of a stored \<^verbatim>\<open>KVStorageType\<close>: the key of \<^verbatim>\<open>v.back()\<close> for a list, the key of the
  element itself otherwise.
\<close>

definition getKeyS :: "('kv, 'k) params \<Rightarrow> 'kv list \<Rightarrow> 'k option" where
  "getKeyS P l = do { v \<leftarrow> vec_back l; Some (getKey P v) }"

definition checkForDuplicate ::
  "('kv, 'k) params \<Rightarrow> ('kv, 'k, 'r::len) table \<Rightarrow> nat \<Rightarrow> 8 word \<Rightarrow> 'r word \<Rightarrow> 'k \<Rightarrow> bool option" where
  "checkForDuplicate P t intendedLocation partialHash extraHash key =
     do { ph \<leftarrow> getPartialHash t intendedLocation;
          if ph = partialHash
          then do { c \<leftarrow> comparePartialHashEx P t intendedLocation extraHash;
                    if c
                    then do { r \<leftarrow> getRedirectInfo t intendedLocation;
                              k \<leftarrow> (if MULTI P then vec_at (extraKeyStorage t) (unat r)
                                    else do { l \<leftarrow> vec_at (arr t) (unat r); getKeyS P l });
                              Some (keyEqualFunc P k key) }
                    else Some False }
          else Some False }"

text \<open>
  The probing loop of \<^verbatim>\<open>emplace\<close>, \<^verbatim>\<open>try_emplace\<close> and \<^verbatim>\<open>search\<close>:
  \<^verbatim>\<open>while(!getLocationEmpty(loc)) { if(checkForDuplicate(loc, ...)) ...; loc = (loc+1) % size; }\<close>.
  The result is the last location and whether the loop left it through the duplicate branch.
\<close>

partial_function (option) probe ::
  "('kv, 'k) params \<Rightarrow> ('kv, 'k, 'r::len) table \<Rightarrow> 8 word \<Rightarrow> 'r word \<Rightarrow> 'k \<Rightarrow> nat \<Rightarrow> (bool \<times> nat) option" where
  "probe C t partialHash extraHash key loc =
     do { e \<leftarrow> getLocationEmpty (fastHashInfo t) loc;
          if e then Some (False, loc)
          else do { d \<leftarrow> checkForDuplicate C t loc partialHash extraHash key;
                    if d then Some (True, loc)
                    else do { loc2 \<leftarrow> umod (loc + 1) (length (fastHashInfo t));
                              probe C t partialHash extraHash key loc2 } } }"

definition checkIfOverflowPossible :: "('kv, 'k, 'r::len) table \<Rightarrow> bool" where
  "checkIfOverflowPossible t = (LENGTH('r) = 32 \<and> length (arr t) = UINT_MAX - 1)"

subsection \<open>Insertion\<close>

definition attemptToAdd :: "('kv, 'k) params \<Rightarrow> ('kv, 'k, 'r::len) table \<Rightarrow> 'kv \<Rightarrow> ('kv, 'k, 'r) table" where
  "attemptToAdd P t v =
     (if MULTI P
      then t\<lparr>arr := arr t @ [[v]], extraKeyStorage := extraKeyStorage t @ [getKey P v]\<rparr>
      else t\<lparr>arr := arr t @ [[v]]\<rparr>)"

definition appendMultimap ::
  "('kv, 'k) params \<Rightarrow> ('kv, 'k, 'r::len) table \<Rightarrow> nat \<Rightarrow> 'kv \<Rightarrow> (iterator \<times> ('kv, 'k, 'r) table) option" where
  "appendMultimap P t intendedLocation v =
     do { r \<leftarrow> getRedirectInfo t intendedLocation;
          let actualLocation = unat r;
          if MULTI P
          then do { l \<leftarrow> vec_at (arr t) actualLocation;
                    let t' = t\<lparr>arr := (arr t)[actualLocation := l @ [v]],
                                totalElements := totalElements t + 1\<rparr>;
                    Some ((Iterator4 t' actualLocation False (Some (length l)))
                            \<lparr>bucketIndex := of_nat intendedLocation\<rparr>, t') }
          else do { returnIt \<leftarrow> Iterator P t actualLocation False;
                    Some (returnIt\<lparr>bucketIndex := of_nat intendedLocation\<rparr>, t) } }"

subsection \<open>Rehash\<close>

text \<open>The loop of \<^verbatim>\<open>specialInsert\<close>: the first empty slot of the new array from \<open>hashLocation\<close> on.\<close>

partial_function (option) specialInsert_loop :: "8 word list \<Rightarrow> nat \<Rightarrow> nat option" where
  "specialInsert_loop newHashInfo hashLocation =
     do { e \<leftarrow> getLocationEmpty newHashInfo hashLocation;
          if e then Some hashLocation
          else do { loc2 \<leftarrow> umod (hashLocation + 1) (length newHashInfo);
                    specialInsert_loop newHashInfo loc2 } }"

definition specialInsert ::
  "('kv, 'k, 'r::len) table \<Rightarrow> nat \<Rightarrow> 8 word list \<Rightarrow> ('r word \<times> 'r word) list
     \<Rightarrow> (8 word list \<times> ('r word \<times> 'r word) list) option" where
  "specialInsert t nodeLocation newHashInfo newRedirectInfo =
     do { storedHash \<leftarrow> getPartialHashEx t nodeLocation;
          start \<leftarrow> umod (unat storedHash) (length newHashInfo);
          hashLocation \<leftarrow> specialInsert_loop newHashInfo start;
          c \<leftarrow> vec_at (fastHashInfo t) nodeLocation;
          r \<leftarrow> vec_at (redirectInfo t) nodeLocation;
          nh \<leftarrow> vec_put newHashInfo hashLocation c;
          nr \<leftarrow> vec_put newRedirectInfo hashLocation r;
          Some (nh, nr) }"

text \<open>The new bucket count of \<^verbatim>\<open>rebalance\<close>, from \<^verbatim>\<open>arr.size()\<close> and \<^verbatim>\<open>fastHashInfo.size()\<close>.\<close>

definition newSize :: "nat \<Rightarrow> nat \<Rightarrow> nat" where
  "newSize n B =
     (let load = fdiv 53 (to_double n) (to_double B)
      in max (if fless load (Finite (fl 24 (MaxLoadBalance / 2))) then B div 2
              else if fge load (Finite MaxLoadBalance) then (B * 2) mod 2 ^ 64
              else B) 1024)"

fun rebalance_loop ::
  "('kv, 'k, 'r::len) table \<Rightarrow> nat list \<Rightarrow> 8 word list \<times> ('r word \<times> 'r word) list
     \<Rightarrow> (8 word list \<times> ('r word \<times> 'r word) list) option" where
  "rebalance_loop t [] new = Some new"
| "rebalance_loop t (i # is) new =
     do { e \<leftarrow> getLocationEmpty (fastHashInfo t) i;
          if e then rebalance_loop t is new
          else do { new' \<leftarrow> specialInsert t i (fst new) (snd new);
                    rebalance_loop t is new' } }"

definition rebalance :: "('kv, 'k, 'r::len) table \<Rightarrow> ('kv, 'k, 'r) table option" where
  "rebalance t =
     do { let n = newSize (length (arr t)) (length (fastHashInfo t));
          let t' = t\<lparr>rehashCounter := rehashCounter t + 1\<rparr>;
          new \<leftarrow> rebalance_loop t' [0..<length (fastHashInfo t')]
                   (replicate n 0, replicate n (0, 0));
          Some (t'\<lparr>fastHashInfo := fst new, redirectInfo := snd new\<rparr>) }"

definition forceRehash :: "('kv, 'k, 'r::len) table \<Rightarrow> ('kv, 'k, 'r) table option" where
  "forceRehash t = rebalance t"

text \<open>\<^verbatim>\<open>(float)arr.size() / (float)fastHashInfo.size() > MaxLoadBalance\<close>\<close>

definition loadTooHigh :: "nat \<Rightarrow> nat \<Rightarrow> bool" where
  "loadTooHigh n B = fless (Finite MaxLoadBalance) (fdiv 24 (to_float n) (to_float B))"

text \<open>
  The first statement of \<^verbatim>\<open>emplace\<close> and \<^verbatim>\<open>try_emplace\<close>: a table without bucket arrays gets
  1024 buckets.
\<close>

definition allocate :: "('kv, 'k, 'r::len) table \<Rightarrow> ('kv, 'k, 'r) table" where
  "allocate t =
     (if length (fastHashInfo t) = 0
      then t\<lparr>fastHashInfo := replicate 1024 0, redirectInfo := replicate 1024 (0, 0)\<rparr>
      else t)"

text \<open>\<^verbatim>\<open>emplace\<close> from the hashing of the key on, after the allocation and the overflow check.\<close>

definition emplace_probed ::
  "('kv, 'k) params \<Rightarrow> ('kv, 'k, 'r::len) table \<Rightarrow> 'kv \<Rightarrow> (iterator \<times> ('kv, 'k, 'r) table) option" where
  "emplace_probed P t v =
     do { let key = getKey P v;
          let actualHash = hasher P key;
          let partialHash = extractPartialHash P actualHash;
          let extraHash = extractPartialHashEx actualHash;
          start \<leftarrow> umod (unat actualHash) (length (fastHashInfo t));
          found \<leftarrow> probe P t partialHash extraHash key start;
          let intendedLocation = snd found;
          if fst found
          then appendMultimap P t intendedLocation v
          else do {
            let t2 = attemptToAdd P t v;
            fh \<leftarrow> vec_put (fastHashInfo t2) intendedLocation partialHash;
            ri \<leftarrow> vec_put (redirectInfo t2) intendedLocation
                    (ucast actualHash, of_nat (length (arr t2) - 1));
            let t3 = t2\<lparr>fastHashInfo := fh, redirectInfo := ri\<rparr>;
            it \<leftarrow> Iterator P t3 (length (arr t3) - 1) False;
            let returnIt = it\<lparr>bucketIndex := of_nat intendedLocation\<rparr>;
            t4 \<leftarrow> (if loadTooHigh (length (arr t3)) (length (fastHashInfo t3))
                   then rebalance t3 else Some t3);
            Some (returnIt, t4\<lparr>totalElements := totalElements t4 + 1\<rparr>) } }"

definition emplace ::
  "('kv, 'k) params \<Rightarrow> ('kv, 'k, 'r::len) table \<Rightarrow> 'kv
     \<Rightarrow> ((error + iterator) \<times> ('kv, 'k, 'r) table) option" where
  "emplace P t v =
     (let t1 = allocate t
      in if checkIfOverflowPossible t1 then Some (Inl TOO_LARGE, t1)
         else do { r \<leftarrow> emplace_probed P t1 v; Some (Inr (fst r), snd r) })"

definition insert_kv ::
  "('kv, 'k) params \<Rightarrow> ('kv, 'k, 'r::len) table \<Rightarrow> 'kv
     \<Rightarrow> ((error + iterator) \<times> ('kv, 'k, 'r) table) option" where
  "insert_kv P t v = emplace P t v"

subsection \<open>Lookup\<close>

definition search :: "('kv, 'k) params \<Rightarrow> ('kv, 'k, 'r::len) table \<Rightarrow> 'k \<Rightarrow> iterator option" where
  "search P t k =
     (if length (arr t) = 0 then end_it P t
      else do {
        let actualHash = hasher P k;
        let partialHash = extractPartialHash P actualHash;
        let extraHash = extractPartialHashEx actualHash;
        location \<leftarrow> umod (unat actualHash) (length (fastHashInfo t));
        found \<leftarrow> probe P t partialHash extraHash k location;
        if fst found
        then do { r \<leftarrow> getRedirectInfo t (snd found);
                  returnIt \<leftarrow> Iterator P t (unat r) False;
                  Some (returnIt\<lparr>bucketIndex := of_nat (snd found)\<rparr>) }
        else end_it P t })"

definition find_key :: "('kv, 'k) params \<Rightarrow> ('kv, 'k, 'r::len) table \<Rightarrow> 'k \<Rightarrow> iterator option" where
  "find_key P t k = search P t k"

subsection \<open>Erasure\<close>

definition elementsAtLocation :: "('kv, 'k) params \<Rightarrow> ('kv, 'k, 'r::len) table \<Rightarrow> nat \<Rightarrow> nat option" where
  "elementsAtLocation P t arrIndex =
     (if MULTI P then do { l \<leftarrow> vec_at (arr t) arrIndex; Some (length l) } else Some 1)"

definition removeFromList ::
  "('kv, 'k) params \<Rightarrow> ('kv, 'k, 'r::len) table \<Rightarrow> iterator \<Rightarrow> (iterator \<times> ('kv, 'k, 'r) table) option" where
  "removeFromList P t it =
     (if MULTI P
      then do { l \<leftarrow> vec_at (arr t) (index it);
                p \<leftarrow> listIterator it;
                if p < length l
                then do { let l' = take p l @ drop (Suc p) l;
                          let t' = t\<lparr>arr := (arr t)[index it := l']\<rparr>;
                          if p = length l'
                          then do { e \<leftarrow> end_it P t'; Some (e, t') }
                          else Some ((Iterator4 t' (index it) (all it) (Some p))
                                       \<lparr>bucketIndex := bucketIndex it\<rparr>, t') }
                else None }
      else do { e \<leftarrow> end_it P t; Some (e, t) })"

text \<open>
  The \<^verbatim>\<open>while(true)\<close> loop of \<^verbatim>\<open>remove\<close> that looks for the bucket of the last element
  of \<^verbatim>\<open>arr\<close>.
\<close>

partial_function (option) findLastSpot ::
  "('kv, 'k) params \<Rightarrow> ('kv, 'k, 'r::len) table \<Rightarrow> 8 word \<Rightarrow> 'r word \<Rightarrow> nat \<Rightarrow> nat option" where
  "findLastSpot C t lastSpotPartialHash lastSpotExtraHash lastSpotLocation =
     do { ph \<leftarrow> getPartialHash t lastSpotLocation;
          hit \<leftarrow> (if ph = lastSpotPartialHash
                  then do { c \<leftarrow> comparePartialHashEx C t lastSpotLocation lastSpotExtraHash;
                            if c then do { r \<leftarrow> getRedirectInfo t lastSpotLocation;
                                           Some (unat r = length (arr t) - 1) }
                            else Some False }
                  else Some False);
          if hit then Some lastSpotLocation
          else do { loc2 \<leftarrow> umod (lastSpotLocation + 1) (length (fastHashInfo t));
                    findLastSpot C t lastSpotPartialHash lastSpotExtraHash loc2 } }"

definition swapDataStorageAndDelete :: "('kv, 'k, 'r::len) table \<Rightarrow> nat \<Rightarrow> ('kv, 'k, 'r) table option" where
  "swapDataStorageAndDelete t i =
     do { b \<leftarrow> vec_back (arr t);
          a \<leftarrow> vec_put (arr t) i b;
          Some (t\<lparr>arr := butlast a\<rparr>) }"

definition swapExtraKeyStorageAndDelete ::
  "('kv, 'k) params \<Rightarrow> ('kv, 'k, 'r::len) table \<Rightarrow> nat \<Rightarrow> ('kv, 'k, 'r) table option" where
  "swapExtraKeyStorageAndDelete P t i =
     (if MULTI P
      then do { b \<leftarrow> vec_back (extraKeyStorage t);
                a \<leftarrow> vec_put (extraKeyStorage t) i b;
                Some (t\<lparr>extraKeyStorage := butlast a\<rparr>) }
      else Some t)"

text \<open>
  The backward shift at the end of \<^verbatim>\<open>remove\<close>: while the slot at \<open>bucketLocation\<close> is
  occupied and away from its desired spot, it is copied into \<open>previousLocation\<close>.
\<close>

partial_function (option) shiftBack ::
  "('kv, 'k, 'r::len) table \<Rightarrow> nat \<Rightarrow> nat \<Rightarrow> ('kv, 'k, 'r) table option" where
  "shiftBack t previousLocation bucketLocation =
     do { e \<leftarrow> getLocationEmpty (fastHashInfo t) bucketLocation;
          if e then Some t
          else do { d \<leftarrow> getDistanceFromDesiredSpot t bucketLocation;
                    if 0 < d
                    then do { c \<leftarrow> vec_at (fastHashInfo t) bucketLocation;
                              fh \<leftarrow> vec_put (fastHashInfo t) previousLocation c;
                              r \<leftarrow> vec_at (redirectInfo t) bucketLocation;
                              ri \<leftarrow> vec_put (redirectInfo t) previousLocation r;
                              loc2 \<leftarrow> umod (bucketLocation + 1) (length (fastHashInfo t));
                              shiftBack (t\<lparr>fastHashInfo := fh, redirectInfo := ri\<rparr>)
                                bucketLocation loc2 }
                    else Some t } }"

definition remove ::
  "('kv, 'k) params \<Rightarrow> ('kv, 'k, 'r::len) table \<Rightarrow> iterator \<Rightarrow> bool
     \<Rightarrow> (iterator \<times> ('kv, 'k, 'r) table) option" where
  "remove P t it deleteAll =
     (if length (arr t) = 0 then do { e \<leftarrow> end_it P t; Some (e, t) }
      else do {
        e \<leftarrow> end_it P t;
        if it_eq P it e then do { e' \<leftarrow> end_it P t; Some (e', t) }
        else do {
          elementCounter \<leftarrow> elementsAtLocation P t (index it);
          if \<not> deleteAll \<and> 1 < elementCounter
          then removeFromList P (t\<lparr>totalElements := totalElements t - 1\<rparr>) it
          else do {
            newIT \<leftarrow> (if it_rehashCounter it \<noteq> rehashCounter t \<or> bucketIndex it = - 1
                      then do { k \<leftarrow> it_key P t it;
                                f \<leftarrow> find_key P t k;
                                Some (f\<lparr>all := all it\<rparr>) }
                      else Some it);
            e2 \<leftarrow> end_it P t;
            if it_eq P newIT e2 then do { e' \<leftarrow> end_it P t; Some (e', t) }
            else do {
              let bucketLocation = unat (bucketIndex newIT);
              currentPartialHash \<leftarrow> getPartialHash t bucketLocation;
              currentHash \<leftarrow> getPartialHashEx t bucketLocation;
              lastStorage \<leftarrow> vec_back (arr t);
              lastKey \<leftarrow> getKeyS P lastStorage;
              let lastSpotHash = hasher P lastKey;
              let lastSpotPartialHash = extractPartialHash P lastSpotHash;
              let lastSpotExtraHash = extractPartialHashEx lastSpotHash;
              start \<leftarrow> umod (unat lastSpotHash) (length (fastHashInfo t));
              lastSpotLocation \<leftarrow> findLastSpot P t lastSpotPartialHash lastSpotExtraHash start;
              fh \<leftarrow> vec_put (fastHashInfo t) bucketLocation 0;
              t2 \<leftarrow> swapDataStorageAndDelete (t\<lparr>fastHashInfo := fh\<rparr>) (index it);
              t3 \<leftarrow> swapExtraKeyStorageAndDelete P t2 (index it);
              rl \<leftarrow> vec_at (redirectInfo t3) lastSpotLocation;
              rb \<leftarrow> vec_at (redirectInfo t3) bucketLocation;
              ri \<leftarrow> vec_put (redirectInfo t3) lastSpotLocation (fst rl, snd rb);
              let t4 = t3\<lparr>redirectInfo := ri\<rparr>;
              loc2 \<leftarrow> umod (bucketLocation + 1) (length (fastHashInfo t4));
              t5 \<leftarrow> shiftBack t4 bucketLocation loc2;
              let t6 = t5\<lparr>totalElements := totalElements t5 - of_nat elementCounter\<rparr>;
              if all newIT
              then do { r \<leftarrow> Iterator P t6 (index newIT) True; Some (r, t6) }
              else do { e' \<leftarrow> end_it P t6; Some (e', t6) } } } } })"

definition erase ::
  "('kv, 'k) params \<Rightarrow> ('kv, 'k, 'r::len) table \<Rightarrow> 'k \<Rightarrow> (iterator \<times> ('kv, 'k, 'r) table) option" where
  "erase P t k = do { it \<leftarrow> find_key P t k; remove P t it True }"

definition erase_it ::
  "('kv, 'k) params \<Rightarrow> ('kv, 'k, 'r::len) table \<Rightarrow> iterator \<Rightarrow> (iterator \<times> ('kv, 'k, 'r) table) option" where
  "erase_it P t it = remove P t it False"

definition eraseAll ::
  "('kv, 'k) params \<Rightarrow> ('kv, 'k, 'r::len) table \<Rightarrow> iterator \<Rightarrow> (iterator \<times> ('kv, 'k, 'r) table) option" where
  "eraseAll P t it = remove P t it True"

section \<open>Instances and states of the examples\<close>

text \<open>
  Modelled from the spec: \<^verbatim>\<open>rapid_mix\<close> of \<^verbatim>\<open>rapidhash.h\<close>, which is missing from the
  sources. The spec (4.1) says that the partial hash mixes the hash with a fixed 64-bit
  constant by a multiplicative mix; the instance of the examples multiplies to 128 bits and
  folds the two halves with XOR. Only the control bytes of the example states depend on
  this choice; the general theorems take \<open>rapid_mix\<close> as a parameter.
\<close>

definition rapid_mix_fold :: "64 word \<Rightarrow> 64 word \<Rightarrow> 64 word" where
  "rapid_mix_fold a b =
     (let r = (ucast a :: 128 word) * ucast b in ucast r XOR ucast (drop_bit 64 r))"

text \<open>
  \<^verbatim>\<open>SimpleHashMap<uint64_t, std::string, H>\<close> and \<^verbatim>\<open>SimpleHashMultiMap<uint64_t, std::string, H>\<close>
  with a hash function \<^verbatim>\<open>H\<close> that returns its argument (as \<^verbatim>\<open>std::hash<uint64_t>\<close> of
  libstdc++ does) and \<^verbatim>\<open>std::equal_to\<close>.
\<close>

definition identity_map :: "(64 word \<times> string, 64 word) params" where
  "identity_map = \<lparr>MULTI = False, hasher = (\<lambda>k. k), keyEqualFunc = (=), getKey = fst,
     is_arithmetic = True, rapid_mix = rapid_mix_fold\<rparr>"

definition identity_multimap :: "(64 word \<times> string, 64 word) params" where
  "identity_multimap = identity_map\<lparr>MULTI := True\<rparr>"

text \<open>A caller's sequence of \<^verbatim>\<open>insert\<close> calls, none of which throws.\<close>

fun inserts :: "('kv, 'k) params \<Rightarrow> ('kv, 'k, 'r::len) table \<Rightarrow> 'kv list \<Rightarrow> ('kv, 'k, 'r) table option" where
  "inserts P t [] = Some t"
| "inserts P t (v # vs) =
     do { r \<leftarrow> insert_kv P t v;
          case fst r of Inl e \<Rightarrow> None | Inr it \<Rightarrow> inserts P (snd r) vs }"

text \<open>
  The starting position of the entry stored in bucket \<open>b\<close>: the hash of its key modulo the
  bucket count.
\<close>

definition start_position :: "('kv, 'k) params \<Rightarrow> ('kv, 'k, 'r::len) table \<Rightarrow> nat \<Rightarrow> nat" where
  "start_position P t b =
     unat (hasher P (getKey P (last (arr t ! unat (snd (redirectInfo t ! b))))))
       mod length (fastHashInfo t)"

text \<open>
  The states below list the writes to a bucket array in the order the code makes them:
  \<open>xs[i := a, j := b]\<close> is \<open>xs\<close> after \<^verbatim>\<open>xs[i] = a; xs[j] = b\<close>.
\<close>

definition erase_gap_before :: "(64 word \<times> string, 64 word, 32) table" where
  "erase_gap_before =
     \<lparr>fastHashInfo = (replicate 1024 0)[1 := 233, 0 := 128, 2 := 247],
      redirectInfo = (replicate 1024 (0, 0))[1 := (1, 0), 0 := (0, 1), 2 := (1024, 2)],
      arr = [[(1, ''x'')], [(0, ''y'')], [(1024, ''z'')]], extraKeyStorage = [],
      totalElements = 3, rehashCounter = 0\<rparr>"

definition erase_gap_after :: "(64 word \<times> string, 64 word, 32) table" where
  "erase_gap_after =
     \<lparr>fastHashInfo = (replicate 1024 0)[1 := 233, 0 := 128, 2 := 247, 0 := 0],
      redirectInfo = (replicate 1024 (0, 0))[1 := (1, 0), 0 := (0, 1), 2 := (1024, 1)],
      arr = [[(1, ''x'')], [(1024, ''z'')]], extraKeyStorage = [],
      totalElements = 2, rehashCounter = 0\<rparr>"

definition erase_gap_again :: "(64 word \<times> string, 64 word, 32) table" where
  "erase_gap_again =
     \<lparr>fastHashInfo = (replicate 1024 0)[1 := 233, 0 := 128, 2 := 247, 0 := 0, 0 := 247],
      redirectInfo = (replicate 1024 (0, 0))[1 := (1, 0), 0 := (0, 1), 2 := (1024, 1), 0 := (1024, 2)],
      arr = [[(1, ''x'')], [(1024, ''z'')], [(1024, ''w'')]], extraKeyStorage = [],
      totalElements = 3, rehashCounter = 0\<rparr>"

definition stale_before :: "(64 word \<times> string, 64 word, 32) table" where
  "stale_before =
     \<lparr>fastHashInfo = (replicate 1024 0)[0 := 128, 1 := 247],
      redirectInfo = (replicate 1024 (0, 0))[0 := (0, 0), 1 := (1024, 1)],
      arr = [[(0, ''x'')], [(1024, ''z'')]], extraKeyStorage = [],
      totalElements = 2, rehashCounter = 0\<rparr>"

definition stale_after :: "(64 word \<times> string, 64 word, 32) table" where
  "stale_after =
     \<lparr>fastHashInfo = (replicate 1024 0)[0 := 128, 1 := 247, 0 := 247],
      redirectInfo = (replicate 1024 (0, 0))[0 := (0, 0), 1 := (1024, 0), 0 := (1024, 0)],
      arr = [[(1024, ''z'')]], extraKeyStorage = [],
      totalElements = 1, rehashCounter = 0\<rparr>"

definition trunc_before :: "(64 word \<times> string, 64 word, 32) table" where
  "trunc_before =
     \<lparr>fastHashInfo = (replicate 2050 0)[2046 := 136],
      redirectInfo = (replicate 2050 (0, 0))[2046 := (0, 0)],
      arr = [[(4294967296, ''x'')]], extraKeyStorage = [],
      totalElements = 1, rehashCounter = 0\<rparr>"

definition trunc_after :: "(64 word \<times> string, 64 word, 32) table" where
  "trunc_after =
     \<lparr>fastHashInfo = (replicate 1025 0)[0 := 136],
      redirectInfo = (replicate 1025 (0, 0))[0 := (0, 0)],
      arr = [[(4294967296, ''x'')]], extraKeyStorage = [],
      totalElements = 1, rehashCounter = 1\<rparr>"

definition multi_three :: "(64 word \<times> string, 64 word, 32) table" where
  "multi_three =
     \<lparr>fastHashInfo = (replicate 1024 0)[1 := 233],
      redirectInfo = (replicate 1024 (0, 0))[1 := (1, 0)],
      arr = [[(1, ''a''), (1, ''b''), (1, ''c'')]], extraKeyStorage = [1],
      totalElements = 3, rehashCounter = 0\<rparr>"

definition two_keys :: "(64 word \<times> string, 64 word, 32) table" where
  "two_keys =
     \<lparr>fastHashInfo = (replicate 1024 0)[1 := 233, 2 := 211],
      redirectInfo = (replicate 1024 (0, 0))[1 := (1, 0), 2 := (2, 1)],
      arr = [[(1, ''a'')], [(2, ''b'')]], extraKeyStorage = [],
      totalElements = 2, rehashCounter = 0\<rparr>"

text \<open>
  A table whose data array holds \<^verbatim>\<open>UINT_MAX - 1\<close> entries; the overflow check reads nothing
  else.
\<close>

definition full_data :: "(64 word \<times> string, 64 word, 32) table" where
  "full_data =
     \<lparr>fastHashInfo = replicate 1024 0, redirectInfo = replicate 1024 (0, 0),
      arr = replicate 4294967294 [(0, [])], extraKeyStorage = [],
      totalElements = 4294967294, rehashCounter = 0\<rparr>"

section \<open>Reachable states\<close>

text \<open>
  The states a caller can bring a table into: a constructed table, and any state one of the
  public mutations returns from a reachable state. \<^verbatim>\<open>try_emplace\<close>, and with it \<^verbatim>\<open>try_insert\<close>
  and \<^verbatim>\<open>operator[]\<close>, makes the steps of \<^verbatim>\<open>emplace\<close> on the value it builds; the copy
  constructor and the copy assignment copy every field; \<^verbatim>\<open>tightlyFit\<close> changes no field.
\<close>

inductive reachable :: "('kv, 'k) params \<Rightarrow> ('kv, 'k, 'r::len) table \<Rightarrow> bool" for P where
  r_new: "reachable P SimpleHashTable"
| r_init: "reachable P (SimpleHashTable_init n)"
| r_insert: "reachable P t \<Longrightarrow> insert_kv P t v = Some (r, t') \<Longrightarrow> reachable P t'"
| r_erase: "reachable P t \<Longrightarrow> erase P t k = Some (it, t') \<Longrightarrow> reachable P t'"
| r_erase_it: "reachable P t \<Longrightarrow> erase_it P t it = Some (it', t') \<Longrightarrow> reachable P t'"
| r_eraseAll: "reachable P t \<Longrightarrow> eraseAll P t it = Some (it', t') \<Longrightarrow> reachable P t'"
| r_rehash: "reachable P t \<Longrightarrow> forceRehash t = Some t' \<Longrightarrow> reachable P t'"
| r_clear: "reachable P t \<Longrightarrow> reachable P (clear t)"
| r_fastClear: "reachable P t \<Longrightarrow> reachable P (fastClear t)"

section \<open>Insertion of distinct keys\<close>



text \<open>The values of scenario S3: the keys \<open>0, 1, \<dots>, n - 1\<close> in this order, each with an empty string.\<close>

definition first_keys :: "nat \<Rightarrow> (64 word \<times> string) list" where
  "first_keys n = map (\<lambda>i. (of_nat i, [])) [0..<n]"

section \<open>The table of \<^verbatim>\<open>SimpleHashTable.h\<close>\<close>

text \<open>
  \<^verbatim>\<open>src/SimpleHashTable.h\<close> holds an older table with the three vectors \<^verbatim>\<open>fastHashInfo\<close>,
  \<^verbatim>\<open>redirectInfo\<close> and \<^verbatim>\<open>arr\<close> only. It is embedded in the same record, whose other fields
  it neither reads nor writes. Its size-hint constructor allocates \<^verbatim>\<open>initSize\<close> buckets as
  they are asked for.
\<close>

definition SimpleHashTable_h_init :: "nat \<Rightarrow> ('kv, 'k, 'r::len) table" where
  "SimpleHashTable_h_init initSize =
     \<lparr>fastHashInfo = replicate initSize 0, redirectInfo = replicate initSize (0, 0),
      arr = [], extraKeyStorage = [], totalElements = 0, rehashCounter = 0\<rparr>"

text \<open>
  Its \<^verbatim>\<open>rebalance\<close> allocates \<^verbatim>\<open>fastHashInfo.size()*2\<close> buckets, a product of \<^verbatim>\<open>size_t\<close>, and
  moves the occupied buckets with \<^verbatim>\<open>specialInsert\<close>, which reads word for word as the one of
  the newer table.
\<close>

definition rebalance_h :: "('kv, 'k, 'r::len) table \<Rightarrow> ('kv, 'k, 'r) table option" where
  "rebalance_h t =
     do { let n = (length (fastHashInfo t) * 2) mod 2 ^ 64;
          new \<leftarrow> rebalance_loop t [0..<length (fastHashInfo t)]
                   (replicate n 0, replicate n (0, 0));
          Some (t\<lparr>fastHashInfo := fst new, redirectInfo := snd new\<rparr>) }"

definition forceRehash_h :: "('kv, 'k, 'r::len) table \<Rightarrow> ('kv, 'k, 'r) table option" where
  "forceRehash_h t = rebalance_h t"

section \<open>States of a rehash between two insertions of one key\<close>

text \<open>
  A multi map with \<open>B\<close> buckets, 32-bit redirection and the hash function that returns its
  argument, after the insertion of the values \<open>first_keys n\<close> into the fresh table, when
  \<open>n \<le> B\<close> and nothing rehashed: key \<open>i\<close> sits in bucket \<open>i\<close> and at index \<open>i\<close> of the data
  array. (The partial hash of a key is the same in \<open>identity_map\<close> and \<open>identity_multimap\<close>.)
\<close>

definition first_keys_table :: "nat \<Rightarrow> nat \<Rightarrow> (64 word \<times> string, 64 word, 32) table" where
  "first_keys_table B n =
     \<lparr>fastHashInfo = map (\<lambda>i. if i < n then extractPartialHash identity_map (of_nat i) else 0) [0..<B],
      redirectInfo = map (\<lambda>i. if i < n then (of_nat i, of_nat i) else (0, 0)) [0..<B],
      arr = map (\<lambda>v. [v]) (first_keys n), extraKeyStorage = map fst (first_keys n),
      totalElements = of_nat n, rehashCounter = 0\<rparr>"

text \<open>
  The table \<open>first_keys_table 1025 820\<close> after \<^verbatim>\<open>insert(4294967296, "a")\<close>, which rehashes to
  2050 buckets; after \<^verbatim>\<open>insert(4294967296, "b")\<close> on top of that; and after
  \<^verbatim>\<open>erase(4294967296)\<close> at the end.
\<close>

definition lost_key_first :: "(64 word \<times> string, 64 word, 32) table" where
  "lost_key_first =
     \<lparr>fastHashInfo = (fastHashInfo (first_keys_table 2050 820))[820 := 136],
      redirectInfo = (redirectInfo (first_keys_table 2050 820))[820 := (0, 820)],
      arr = arr (first_keys_table 2050 820) @ [[(4294967296, ''a'')]],
      extraKeyStorage = extraKeyStorage (first_keys_table 2050 820) @ [4294967296],
      totalElements = 821, rehashCounter = 1\<rparr>"

definition lost_key_before :: "(64 word \<times> string, 64 word, 32) table" where
  "lost_key_before =
     \<lparr>fastHashInfo = (fastHashInfo (first_keys_table 2050 820))[820 := 136, 2046 := 136],
      redirectInfo = (redirectInfo (first_keys_table 2050 820))[820 := (0, 820), 2046 := (0, 821)],
      arr = arr (first_keys_table 2050 820) @ [[(4294967296, ''a'')], [(4294967296, ''b'')]],
      extraKeyStorage = extraKeyStorage (first_keys_table 2050 820) @ [4294967296, 4294967296],
      totalElements = 822, rehashCounter = 1\<rparr>"

definition lost_key_after :: "(64 word \<times> string, 64 word, 32) table" where
  "lost_key_after =
     \<lparr>fastHashInfo = (fastHashInfo (first_keys_table 2050 820))[820 := 136, 2046 := 136, 2046 := 0],
      redirectInfo = (redirectInfo (first_keys_table 2050 820))[820 := (0, 820), 2046 := (0, 821)],
      arr = arr (first_keys_table 2050 820) @ [[(4294967296, ''a'')]],
      extraKeyStorage = extraKeyStorage (first_keys_table 2050 820) @ [4294967296],
      totalElements = 821, rehashCounter = 1\<rparr>"

declare probe.simps [code] specialInsert_loop.simps [code] findLastSpot.simps [code]
  shiftBack.simps [code]

section \<open>Rounding to nearest\<close>

lemma rne_cases: "rne x = \<lfloor>x\<rfloor> \<or> rne x = \<lfloor>x\<rfloor> + 1"
  by (simp add: rne_def)

lemma rne_of_int: "rne (of_int k) = k"
  by (simp add: rne_def)

lemma rne_ge: "of_int k \<le> x \<Longrightarrow> k \<le> rne x"
proof -
  assume "of_int k \<le> x"
  then have "k \<le> \<lfloor>x\<rfloor>" by (simp add: le_floor_iff)
  with rne_cases [of x] show ?thesis by linarith
qed

lemma rne_le: "x \<le> of_int k \<Longrightarrow> rne x \<le> k"
proof (cases "x = of_int k")
  case True
  then show ?thesis by (simp add: rne_of_int)
next
  case False
  assume "x \<le> of_int k"
  with False have "x < of_int k" by simp
  then have "\<lfloor>x\<rfloor> < k" by (simp add: floor_less_iff)
  with rne_cases [of x] show ?thesis by linarith
qed

lemma rne_ge_iff_even:
  assumes "even k"
  shows "k \<le> rne x \<longleftrightarrow> of_int k - 1 / 2 \<le> x"
proof
  assume a: "k \<le> rne x"
  show "of_int k - 1 / 2 \<le> x"
  proof (rule ccontr)
    assume "\<not> of_int k - 1 / 2 \<le> x"
    then have lt: "x < of_int k - 1 / 2" by simp
    then have "x < of_int k" by linarith
    then have f: "\<lfloor>x\<rfloor> \<le> k - 1" by (simp add: floor_less_iff)
    show False
    proof (cases "\<lfloor>x\<rfloor> = k - 1")
      case True
      then have "x - of_int \<lfloor>x\<rfloor> < 1 / 2" using lt by simp
      then have "rne x = \<lfloor>x\<rfloor>" by (simp add: rne_def)
      with True a show False by simp
    next
      case False
      with f have "\<lfloor>x\<rfloor> + 1 < k" by simp
      with rne_cases [of x] a show False by linarith
    qed
  qed
next
  assume a: "of_int k - 1 / 2 \<le> x"
  show "k \<le> rne x"
  proof (cases "of_int k \<le> x")
    case True
    then show ?thesis by (rule rne_ge)
  next
    case False
    then have "x < of_int k" by simp
    moreover from a have "of_int (k - 1) \<le> x" by simp
    ultimately have f: "\<lfloor>x\<rfloor> = k - 1" by (simp add: floor_unique)
    then have odd: "odd \<lfloor>x\<rfloor>" using assms by simp
    have "1 / 2 \<le> x - of_int \<lfloor>x\<rfloor>" using a f by simp
    then have "rne x = \<lfloor>x\<rfloor> + 1" using odd by (auto simp add: rne_def)
    with f show ?thesis by simp
  qed
qed

lemma rne_eqI: "of_int k - 1 / 2 < x \<Longrightarrow> x < of_int k + 1 / 2 \<Longrightarrow> rne x = k"
proof -
  assume a: "of_int k - 1 / 2 < x" and b: "x < of_int k + 1 / 2"
  show ?thesis
  proof (cases "of_int k \<le> x")
    case True
    with b have "\<lfloor>x\<rfloor> = k" by (simp add: floor_unique)
    moreover have "x - of_int k < 1 / 2" using b by simp
    ultimately show ?thesis by (simp add: rne_def)
  next
    case False
    then have "x < of_int k" by simp
    moreover from a have "of_int (k - 1) \<le> x" by simp
    ultimately have f: "\<lfloor>x\<rfloor> = k - 1" by (simp add: floor_unique)
    have "1 / 2 < x - of_int \<lfloor>x\<rfloor>" using a f by simp
    then have "rne x = \<lfloor>x\<rfloor> + 1" by (simp add: rne_def)
    with f show ?thesis by simp
  qed
qed

lemma powi2_pos: "0 < (2::rat) powi e"
  by (simp add: zero_less_power_int)

lemma powi2_mono: "a \<le> b \<Longrightarrow> (2::rat) powi a \<le> 2 powi b"
  by (rule power_int_increasing) simp_all

lemma powi2_strict_mono: "a < b \<Longrightarrow> (2::rat) powi a < 2 powi b"
  by (rule power_int_strict_increasing) simp_all

lemma powi2_add: "(2::rat) powi (a + b) = 2 powi a * 2 powi b"
  by (rule power_int_add) simp

lemma expo_bounds:
  assumes "0 < x"
  shows "2 powi expo x \<le> x \<and> x < 2 powi (expo x + 1)"
proof (cases "1 \<le> x")
  case True
  define n where "n = nat \<lfloor>x\<rfloor>"
  have n1: "0 < n" using True by (simp add: n_def le_floor_iff)
  have fb: "2 ^ (floorlog 2 n - 1) \<le> n \<and> n < 2 ^ floorlog 2 n"
    using floorlog_bounds [of n 2] n1 by simp
  have fl1: "0 < floorlog 2 n" using n1 by (simp add: floorlog_def)
  have e: "expo x = int (floorlog 2 n) - 1" using True by (simp add: expo_def n_def)
  have nx: "of_nat n \<le> x" "x < of_nat n + 1"
  proof -
    have "of_int \<lfloor>x\<rfloor> \<le> x" by simp
    moreover have "int n = \<lfloor>x\<rfloor>" using True by (simp add: n_def)
    ultimately show "of_nat n \<le> x" by (metis of_int_of_nat_eq)
    have "x < of_int \<lfloor>x\<rfloor> + 1" by linarith
    with \<open>int n = \<lfloor>x\<rfloor>\<close> show "x < of_nat n + 1" by (metis of_int_of_nat_eq)
  qed
  have p1: "(2::rat) powi expo x = 2 ^ (floorlog 2 n - 1)"
    using fl1 by (simp add: e power_int_def nat_diff_distrib)
  have p2: "(2::rat) powi (expo x + 1) = 2 ^ floorlog 2 n"
    by (simp add: e)
  have "(2::rat) ^ (floorlog 2 n - 1) \<le> of_nat n"
    using fb by (metis of_nat_le_iff of_nat_numeral of_nat_power)
  moreover have "of_nat n + 1 \<le> (2::rat) ^ floorlog 2 n"
  proof -
    have "n + 1 \<le> 2 ^ floorlog 2 n" using fb by simp
    then have "(of_nat (n + 1) :: rat) \<le> of_nat (2 ^ floorlog 2 n)" by (simp only: of_nat_le_iff)
    then show ?thesis by simp
  qed
  ultimately show ?thesis using nx p1 p2 by linarith
next
  case False
  then have x1: "x < 1" by simp
  define m where "m = nat \<lceil>1 / x\<rceil>"
  have inv: "1 < 1 / x" using assms x1 by simp
  then have c1: "1 < \<lceil>1 / x\<rceil>" by (simp add: less_ceiling_iff)
  have m2: "2 \<le> m" unfolding m_def using c1 by linarith
  have mx: "1 / x \<le> of_nat m" "of_nat m - 1 < 1 / x"
  proof -
    have im: "int m = \<lceil>1 / x\<rceil>" using \<open>1 < \<lceil>1 / x\<rceil>\<close> by (simp add: m_def)
    have "1 / x \<le> of_int \<lceil>1 / x\<rceil>" by simp
    with im show "1 / x \<le> of_nat m" by (metis of_int_of_nat_eq)
    have "of_int \<lceil>1 / x\<rceil> - 1 < 1 / x" by linarith
    with im show "of_nat m - 1 < 1 / x" by (metis of_int_of_nat_eq)
  qed
  define k where "k = floorlog 2 (m - 1)"
  have fb: "2 ^ (k - 1) \<le> m - 1 \<and> m - 1 < 2 ^ k"
    using floorlog_bounds [of "m - 1" 2] m2 by (simp add: k_def)
  have k1: "0 < k" using m2 by (simp add: k_def floorlog_def)
  have e: "expo x = - int k" using False by (simp add: expo_def m_def k_def)
  have "of_nat m \<le> (2::rat) ^ k"
  proof -
    have "m \<le> 2 ^ k" using fb m2 by linarith
    then have "(of_nat m :: rat) \<le> of_nat (2 ^ k)" by (simp only: of_nat_le_iff)
    then show ?thesis by simp
  qed
  with mx have u: "1 / x \<le> 2 ^ k" by linarith
  have "(2::rat) ^ (k - 1) \<le> of_nat (m - 1)"
    using fb by (metis of_nat_le_iff of_nat_numeral of_nat_power)
  also have "\<dots> = of_nat m - 1" using m2 by (simp add: of_nat_diff)
  finally have l: "(2::rat) ^ (k - 1) < 1 / x" using mx by linarith
  have p1: "(2::rat) powi expo x = 1 / 2 ^ k"
    by (simp add: e power_int_minus_divide)
  have p2: "(2::rat) powi (expo x + 1) = 1 / 2 ^ (k - 1)"
  proof -
    have "expo x + 1 = - int (k - 1)" using k1 by (simp add: e)
    then show ?thesis by (simp add: power_int_minus_divide)
  qed
  have a: "1 / 2 ^ k \<le> x"
  proof -
    have "1 \<le> x * 2 ^ k" using u assms by (simp add: field_simps)
    then show ?thesis by (simp add: field_simps)
  qed
  have b: "x < 1 / 2 ^ (k - 1)"
  proof -
    have "x * 2 ^ (k - 1) < 1" using l assms by (simp add: field_simps)
    then show ?thesis by (simp add: field_simps)
  qed
  show ?thesis using a b p1 p2 by simp
qed

lemma expo_unique:
  assumes "2 powi e \<le> x" "x < 2 powi (e + 1)"
  shows "expo x = e"
proof -
  have x0: "0 < x" using assms(1) powi2_pos [of e] by linarith
  note b = expo_bounds [OF x0]
  show ?thesis
  proof (rule ccontr)
    assume "expo x \<noteq> e"
    then consider "expo x + 1 \<le> e" | "e + 1 \<le> expo x" by linarith
    then show False
    proof cases
      case 1
      then have "(2::rat) powi (expo x + 1) \<le> 2 powi e" by (rule powi2_mono)
      with b assms show False by linarith
    next
      case 2
      then have "(2::rat) powi (e + 1) \<le> 2 powi expo x" by (rule powi2_mono)
      with b assms show False by linarith
    qed
  qed
qed


lemma fl_binade:
  assumes "2 powi e \<le> x" "x < 2 powi (e + 1)"
  shows "fl p x = of_int (rne (x * 2 powi (int p - 1 - e))) * 2 powi (e + 1 - int p)"
proof -
  have "0 < x" using assms(1) powi2_pos [of e] by linarith
  then show ?thesis by (simp add: fl_def expo_unique [OF assms])
qed

lemma powi2_split: "(2::rat) powi e = 2 powi (int p - 1) * 2 powi (e + 1 - int p)"
  by (simp flip: powi2_add)

lemma powi2_split_up: "(2::rat) powi (e + 1) = 2 ^ p * 2 powi (e + 1 - int p)"
  using powi2_add [of "int p" "e + 1 - int p"] by simp

lemma powi2_cancel: "x * (2::rat) powi (int p - 1 - e) * 2 powi (e + 1 - int p) = x"
proof -
  have "(2::rat) powi (int p - 1 - e) * 2 powi (e + 1 - int p) = 2 powi 0"
    by (simp flip: powi2_add)
  then show ?thesis by (simp add: mult.assoc)
qed

lemma fl_lower:
  assumes "0 < p" "2 powi e \<le> x" "x < 2 powi (e + 1)"
  shows "2 powi e \<le> fl p x"
proof -
  define u :: rat where "u = 2 powi (e + 1 - int p)"
  define y where "y = x * 2 powi (int p - 1 - e)"
  have u0: "0 < u" by (simp add: u_def powi2_pos)
  have xy: "x = y * u" by (simp add: y_def u_def powi2_cancel)
  have e: "(2::rat) powi e = 2 ^ (p - 1) * u"
    using assms(1) powi2_split [of e p] by (simp add: u_def power_int_def nat_diff_distrib)
  have "2 ^ (p - 1) * u \<le> y * u" using assms(2) e xy by simp
  then have "of_int (2 ^ (p - 1)) \<le> y" using u0 by simp
  then have "2 ^ (p - 1) \<le> rne y" by (rule rne_ge)
  then have "(of_int (2 ^ (p - 1)) :: rat) \<le> of_int (rne y)" by (simp only: of_int_le_iff)
  then have "2 ^ (p - 1) * u \<le> of_int (rne y) * u" using u0 by simp
  then show ?thesis using e fl_binade [OF assms(2,3), of p] by (simp add: y_def u_def)
qed

lemma fl_upper:
  assumes "2 powi e \<le> x" "x < 2 powi (e + 1)"
  shows "fl p x \<le> 2 powi (e + 1)"
proof -
  define u :: rat where "u = 2 powi (e + 1 - int p)"
  define y where "y = x * 2 powi (int p - 1 - e)"
  have u0: "0 < u" by (simp add: u_def powi2_pos)
  have xy: "x = y * u" by (simp add: y_def u_def powi2_cancel)
  have e: "(2::rat) powi (e + 1) = 2 ^ p * u"
    using powi2_split_up [of e p] by (simp add: u_def)
  have "y * u \<le> 2 ^ p * u" using assms(2) e xy by simp
  then have "y \<le> of_int (2 ^ p)" using u0 by simp
  then have "rne y \<le> 2 ^ p" by (rule rne_le)
  then have "(of_int (rne y) :: rat) \<le> of_int (2 ^ p)" by (simp only: of_int_le_iff)
  then have "of_int (rne y) * u \<le> 2 ^ p * u" using u0 by simp
  then show ?thesis using e fl_binade [OF assms, of p] by (simp add: y_def u_def)
qed

lemma scale_le: "0 < u \<Longrightarrow> a \<le> b \<Longrightarrow> a * u \<le> b * (u::rat)"
  by simp

lemma scale_less: "0 < u \<Longrightarrow> a < b \<Longrightarrow> a * u < b * (u::rat)"
  by simp

lemma fl_ge_iff:
  assumes p: "0 < p" and K: "even K" "2 ^ (p - 1) < K" "K \<le> 2 ^ p" and x: "0 < x"
  shows "of_int K * 2 powi (e + 1 - int p) \<le> fl p x
           \<longleftrightarrow> (of_int K - 1 / 2) * 2 powi (e + 1 - int p) \<le> x"
proof -
  define u :: rat where "u = 2 powi (e + 1 - int p)"
  have u0: "0 < u" by (simp add: u_def powi2_pos)
  have lo: "(2::rat) powi e = 2 ^ (p - 1) * u"
    using p powi2_split [of e p] by (simp add: u_def power_int_def nat_diff_distrib)
  have hi: "(2::rat) powi (e + 1) = 2 ^ p * u"
    using powi2_split_up [of e p] by (simp add: u_def)
  have Klo: "(2::rat) ^ (p - 1) + 1 \<le> of_int K"
  proof -
    have "2 ^ (p - 1) + 1 \<le> K" using K(2) by simp
    then have "(of_int (2 ^ (p - 1) + 1) :: rat) \<le> of_int K" by (simp only: of_int_le_iff)
    then show ?thesis by simp
  qed
  have Khi: "of_int K \<le> (2::rat) ^ p"
  proof -
    have "(of_int K :: rat) \<le> of_int (2 ^ p)" using K(3) by (simp only: of_int_le_iff)
    then show ?thesis by simp
  qed
  note b = expo_bounds [OF x]
  consider "expo x = e" | "expo x + 1 \<le> e" | "e + 1 \<le> expo x" by linarith
  then show ?thesis
  proof cases
    case 1
    define y where "y = x * 2 powi (int p - 1 - e)"
    have xy: "x = y * u" by (simp add: y_def u_def powi2_cancel)
    have f: "fl p x = of_int (rne y) * u"
      using fl_binade [of e x p] b 1 by (simp add: y_def u_def)
    have "of_int K * u \<le> of_int (rne y) * u \<longleftrightarrow> (of_int K :: rat) \<le> of_int (rne y)"
      using u0 by simp
    also have "\<dots> \<longleftrightarrow> K \<le> rne y" by (simp only: of_int_le_iff)
    also have "\<dots> \<longleftrightarrow> of_int K - 1 / 2 \<le> y" by (rule rne_ge_iff_even [OF K(1)])
    also have "\<dots> \<longleftrightarrow> (of_int K - 1 / 2) * u \<le> y * u" using u0 by simp
    finally show ?thesis using f xy by (simp add: u_def)
  next
    case 2
    have "fl p x \<le> 2 powi (expo x + 1)" using fl_upper b by blast
    also have "\<dots> \<le> 2 powi e" using 2 by (rule powi2_mono)
    finally have "fl p x \<le> 2 ^ (p - 1) * u" using lo by simp
    moreover have "2 ^ (p - 1) * u < of_int K * u"
    proof -
      have "(2::rat) ^ (p - 1) < of_int K" using Klo by linarith
      then show ?thesis using u0 by (rule mult_strict_right_mono)
    qed
    ultimately have l: "\<not> of_int K * u \<le> fl p x" by linarith
    have "x < 2 powi (expo x + 1)" using b by simp
    also have "\<dots> \<le> 2 powi e" using 2 by (rule powi2_mono)
    finally have "x < 2 ^ (p - 1) * u" using lo by simp
    moreover have "2 ^ (p - 1) * u \<le> (of_int K - 1 / 2) * u"
      by (rule scale_le [OF u0]) (use Klo in linarith)
    ultimately have r: "\<not> (of_int K - 1 / 2) * u \<le> x" by linarith
    show ?thesis using l r by (simp add: u_def)
  next
    case 3
    have m: "(2::rat) powi (e + 1) \<le> 2 powi expo x" using 3 by (rule powi2_mono)
    have "2 powi expo x \<le> fl p x" using fl_lower [OF p] b by blast
    with m have "2 ^ p * u \<le> fl p x" using hi by simp
    moreover have "of_int K * u \<le> 2 ^ p * u"
      by (rule scale_le [OF u0]) (rule Khi)
    ultimately have l: "of_int K * u \<le> fl p x" by linarith
    have "2 ^ p * u \<le> x" using m b hi by simp
    moreover have "(of_int K - 1 / 2) * u \<le> 2 ^ p * u"
      by (rule scale_le [OF u0]) (use Khi in linarith)
    ultimately have r: "(of_int K - 1 / 2) * u \<le> x" by linarith
    show ?thesis using l r by (simp add: u_def)
  qed
qed

lemma fl_gt_iff:
  assumes p: "0 < p" and K: "even K" "2 ^ (p - 1) < K" "K \<le> 2 ^ p" and x: "0 < x"
  shows "of_int (K - 1) * 2 powi (e + 1 - int p) < fl p x
           \<longleftrightarrow> (of_int K - 1 / 2) * 2 powi (e + 1 - int p) \<le> x"
proof -
  define u :: rat where "u = 2 powi (e + 1 - int p)"
  have u0: "0 < u" by (simp add: u_def powi2_pos)
  have lo: "(2::rat) powi e = 2 ^ (p - 1) * u"
    using p powi2_split [of e p] by (simp add: u_def power_int_def nat_diff_distrib)
  have hi: "(2::rat) powi (e + 1) = 2 ^ p * u"
    using powi2_split_up [of e p] by (simp add: u_def)
  have Klo: "(2::rat) ^ (p - 1) \<le> of_int (K - 1)"
  proof -
    have "2 ^ (p - 1) \<le> K - 1" using K(2) by simp
    then have "(of_int (2 ^ (p - 1)) :: rat) \<le> of_int (K - 1)" by (simp only: of_int_le_iff)
    then show ?thesis by simp
  qed
  have Khi: "of_int K \<le> (2::rat) ^ p"
  proof -
    have "(of_int K :: rat) \<le> of_int (2 ^ p)" using K(3) by (simp only: of_int_le_iff)
    then show ?thesis by simp
  qed
  note b = expo_bounds [OF x]
  consider "expo x = e" | "expo x + 1 \<le> e" | "e + 1 \<le> expo x" by linarith
  then show ?thesis
  proof cases
    case 1
    define y where "y = x * 2 powi (int p - 1 - e)"
    have f: "fl p x = of_int (rne y) * u"
      using fl_binade [of e x p] b 1 by (simp add: y_def u_def)
    have "of_int (K - 1) * u < of_int (rne y) * u \<longleftrightarrow> (of_int (K - 1) :: rat) < of_int (rne y)"
      using u0 by simp
    also have "\<dots> \<longleftrightarrow> K - 1 < rne y" by (simp only: of_int_less_iff)
    also have "\<dots> \<longleftrightarrow> K \<le> rne y" by linarith
    also have "\<dots> \<longleftrightarrow> of_int K * u \<le> fl p x" using f u0 by simp
    finally show ?thesis using f fl_ge_iff [OF p K x, of e] by (simp add: u_def)
  next
    case 2
    have "fl p x \<le> 2 powi (expo x + 1)" using fl_upper b by blast
    also have "\<dots> \<le> 2 powi e" using 2 by (rule powi2_mono)
    finally have "fl p x \<le> 2 ^ (p - 1) * u" using lo by simp
    moreover have "2 ^ (p - 1) * u \<le> of_int (K - 1) * u"
      by (rule scale_le [OF u0]) (rule Klo)
    ultimately have l: "\<not> of_int (K - 1) * u < fl p x" by linarith
    have "x < 2 powi (expo x + 1)" using b by simp
    also have "\<dots> \<le> 2 powi e" using 2 by (rule powi2_mono)
    finally have "x < 2 ^ (p - 1) * u" using lo by simp
    moreover have "2 ^ (p - 1) * u \<le> (of_int K - 1 / 2) * u"
    proof -
      have "(of_int (K - 1) :: rat) = of_int K - 1" by simp
      then have "(2::rat) ^ (p - 1) \<le> of_int K - 1 / 2" using Klo by linarith
      then show ?thesis by (rule scale_le [OF u0])
    qed
    ultimately have r: "\<not> (of_int K - 1 / 2) * u \<le> x" by linarith
    show ?thesis using l r by (simp add: u_def)
  next
    case 3
    have m: "(2::rat) powi (e + 1) \<le> 2 powi expo x" using 3 by (rule powi2_mono)
    have "2 powi expo x \<le> fl p x" using fl_lower [OF p] b by blast
    with m have "2 ^ p * u \<le> fl p x" using hi by simp
    moreover have "of_int (K - 1) * u < 2 ^ p * u"
    proof -
      have "(of_int (K - 1) :: rat) = of_int K - 1" by simp
      then have "(of_int (K - 1) :: rat) < 2 ^ p" using Khi by linarith
      then show ?thesis using u0 by (rule mult_strict_right_mono)
    qed
    ultimately have l: "of_int (K - 1) * u < fl p x" by linarith
    have "2 ^ p * u \<le> x" using m b hi by simp
    moreover have "(of_int K - 1 / 2) * u \<le> 2 ^ p * u"
      by (rule scale_le [OF u0]) (use Khi in linarith)
    ultimately have r: "(of_int K - 1 / 2) * u \<le> x" by linarith
    show ?thesis using l r by (simp add: u_def)
  qed
qed

lemma fl_exact:
  assumes "0 < m" "m < 2 ^ p"
  shows "fl p (of_int m * 2 powi k) = of_int m * 2 powi k"
proof -
  define x :: rat where "x = of_int m * 2 powi k"
  have x0: "0 < x" using assms(1) by (simp add: x_def powi2_pos)
  note b = expo_bounds [OF x0]
  have "(of_int m :: rat) < of_int (2 ^ p)" using assms(2) by (simp only: of_int_less_iff)
  then have "x < 2 ^ p * 2 powi k" by (simp add: x_def powi2_pos)
  also have "\<dots> = 2 powi (int p + k)" by (simp add: powi2_add)
  finally have "2 powi expo x < (2::rat) powi (int p + k)" using b by linarith
  then have "expo x < int p + k"
    using powi2_mono [of "int p + k" "expo x"] by (cases "expo x < int p + k") auto
  then have d: "0 \<le> k + int p - 1 - expo x" by simp
  define j where "j = nat (k + int p - 1 - expo x)"
  have "2 powi k * (2::rat) powi (int p - 1 - expo x) = 2 powi (k + int p - 1 - expo x)"
    by (simp flip: powi2_add add: algebra_simps)
  also have "\<dots> = 2 ^ j" using d by (simp add: j_def power_int_def)
  finally have "x * 2 powi (int p - 1 - expo x) = of_int (m * 2 ^ j)"
    by (simp add: x_def mult.assoc)
  then have "rne (x * 2 powi (int p - 1 - expo x)) = m * 2 ^ j"
    by (simp only: rne_of_int)
  then have "fl p x = of_int (m * 2 ^ j) * 2 powi (expo x + 1 - int p)"
    using x0 by (simp add: fl_def)
  also have "\<dots> = x * 2 powi (int p - 1 - expo x) * 2 powi (expo x + 1 - int p)"
    using \<open>x * 2 powi (int p - 1 - expo x) = of_int (m * 2 ^ j)\<close> by simp
  also have "\<dots> = x" by (rule powi2_cancel)
  finally show ?thesis by (simp add: x_def)
qed

lemma fl_0: "fl p 0 = 0"
  by (simp add: fl_def)

lemma fl_of_nat: "n < 2 ^ p \<Longrightarrow> fl p (of_nat n) = of_nat n"
proof (cases "n = 0")
  case True
  then show ?thesis by (simp add: fl_0)
next
  case False
  assume "n < 2 ^ p"
  then have "int n < 2 ^ p" by (metis of_nat_less_iff of_nat_numeral of_nat_power)
  with False show ?thesis using fl_exact [of "int n" p 0] by simp
qed


lemma fl53_four_fifths: "fl 53 (4 / 5) = 7205759403792794 / 9007199254740992"
proof -
  have r: "rne (4 / 5 * 2 powi (int 53 - 1 - (- 1))) = 7205759403792794"
    by (rule rne_eqI) simp_all
  have "fl 53 (4 / 5) = of_int (rne (4 / 5 * 2 powi (int 53 - 1 - (- 1)))) * 2 powi (- 1 + 1 - int 53)"
    by (rule fl_binade) simp_all
  then show ?thesis by (simp only: r) (simp add: power_int_minus)
qed

lemma MaxLoadBalance_eq: "MaxLoadBalance = 13421773 / 16777216"
proof -
  let ?x = "7205759403792794 / 9007199254740992 :: rat"
  have r: "rne (?x * 2 powi (int 24 - 1 - (- 1))) = 13421773"
    by (rule rne_eqI) simp_all
  have "fl 24 ?x = of_int (rne (?x * 2 powi (int 24 - 1 - (- 1)))) * 2 powi (- 1 + 1 - int 24)"
    by (rule fl_binade) simp_all
  then have "fl 24 ?x = 13421773 / 16777216" by (simp only: r) (simp add: power_int_minus)
  then show ?thesis by (simp add: MaxLoadBalance_def fl53_four_fifths)
qed

lemma half_MaxLoadBalance: "fl 24 (MaxLoadBalance / 2) = 13421773 / 33554432"
proof -
  have "fl 24 (of_int 13421773 * 2 powi (- 25)) = of_int 13421773 * 2 powi (- 25)"
    by (rule fl_exact) simp_all
  then show ?thesis by (simp add: MaxLoadBalance_eq power_int_minus)
qed

lemma loadTooHigh_iff:
  assumes "0 < B" "n < 2 ^ 24" "B < 2 ^ 24"
  shows "loadTooHigh n B \<longleftrightarrow> 26843547 * B \<le> 33554432 * n"
proof (cases "n = 0")
  case True
  then show ?thesis using assms(1)
    by (simp add: loadTooHigh_def to_float_def fdiv_def fl_0 fl_of_nat [OF assms(3)] MaxLoadBalance_eq)
next
  case False
  define q :: rat where "q = of_nat n / of_nat B"
  have q0: "0 < q" using False assms(1) by (simp add: q_def)
  have B0: "(0::rat) < of_nat B" using assms(1) by simp
  have "loadTooHigh n B \<longleftrightarrow> MaxLoadBalance < fl 24 q"
    using assms(1)
    by (simp add: loadTooHigh_def to_float_def fdiv_def fl_of_nat [OF assms(2)]
        fl_of_nat [OF assms(3)] q_def)
  also have "\<dots> \<longleftrightarrow> of_int (13421774 - 1) * 2 powi (- 1 + 1 - int 24) < fl 24 q"
    by (simp add: MaxLoadBalance_eq power_int_minus)
  also have "\<dots> \<longleftrightarrow> (of_int 13421774 - 1 / 2) * 2 powi (- 1 + 1 - int 24) \<le> q"
    by (rule fl_gt_iff) (use q0 in simp_all)
  also have "\<dots> \<longleftrightarrow> 26843547 / 33554432 \<le> q"
    by (simp add: power_int_minus)
  also have "\<dots> \<longleftrightarrow> 26843547 * of_nat B \<le> 33554432 * (of_nat n :: rat)"
    using B0 by (simp add: q_def field_simps)
  also have "\<dots> \<longleftrightarrow> (of_nat (26843547 * B) :: rat) \<le> of_nat (33554432 * n)" by simp
  also have "\<dots> \<longleftrightarrow> 26843547 * B \<le> 33554432 * n" by (simp only: of_nat_le_iff)
  finally show ?thesis .
qed

lemma newSize_0: "newSize n 0 = 1024"
  by (simp add: newSize_def fdiv_def to_double_def fl_0 Let_def)

lemma newSize_iff:
  assumes "0 < B" "n < 2 ^ 53" "B < 2 ^ 53"
  shows "newSize n B =
           max (if 36028797018963968 * n < 14411519022333951 * B then B div 2
                else if 14411519022333951 * B \<le> 18014398509481984 * n then (B * 2) mod 2 ^ 64
                else B) 1024"
proof -
  define q :: rat where "q = of_nat n / of_nat B"
  have B0: "(0::rat) < of_nat B" using assms(1) by simp
  have load: "fdiv 53 (to_double n) (to_double B) = Finite (fl 53 q)"
    using assms(1) by (simp add: to_double_def fdiv_def fl_of_nat [OF assms(2)]
        fl_of_nat [OF assms(3)] q_def)
  have lo: "fl 53 q < 13421773 / 33554432 \<longleftrightarrow> 36028797018963968 * n < 14411519022333951 * B"
  proof (cases "n = 0")
    case True
    then show ?thesis using assms(1) by (simp add: q_def fl_0)
  next
    case False
    then have q0: "0 < q" using assms(1) by (simp add: q_def)
    have "of_int 7205759511166976 * 2 powi (- 2 + 1 - int 53) \<le> fl 53 q
            \<longleftrightarrow> (of_int 7205759511166976 - 1 / 2) * 2 powi (- 2 + 1 - int 53) \<le> q"
      by (rule fl_ge_iff) (use q0 in simp_all)
    then have "13421773 / 33554432 \<le> fl 53 q \<longleftrightarrow> 14411519022333951 / 36028797018963968 \<le> q"
      by (simp add: power_int_minus)
    also have "\<dots> \<longleftrightarrow> 14411519022333951 * of_nat B \<le> 36028797018963968 * (of_nat n :: rat)"
      using B0 by (simp add: q_def field_simps)
    also have "\<dots> \<longleftrightarrow> (of_nat (14411519022333951 * B) :: rat) \<le> of_nat (36028797018963968 * n)"
      by simp
    also have "\<dots> \<longleftrightarrow> 14411519022333951 * B \<le> 36028797018963968 * n"
      by (simp only: of_nat_le_iff)
    finally show ?thesis by linarith
  qed
  have hi: "13421773 / 16777216 \<le> fl 53 q \<longleftrightarrow> 14411519022333951 * B \<le> 18014398509481984 * n"
  proof (cases "n = 0")
    case True
    then show ?thesis using assms(1) by (simp add: q_def fl_0)
  next
    case False
    then have q0: "0 < q" using assms(1) by (simp add: q_def)
    have "of_int 7205759511166976 * 2 powi (- 1 + 1 - int 53) \<le> fl 53 q
            \<longleftrightarrow> (of_int 7205759511166976 - 1 / 2) * 2 powi (- 1 + 1 - int 53) \<le> q"
      by (rule fl_ge_iff) (use q0 in simp_all)
    then have "13421773 / 16777216 \<le> fl 53 q \<longleftrightarrow> 14411519022333951 / 18014398509481984 \<le> q"
      by (simp add: power_int_minus)
    also have "\<dots> \<longleftrightarrow> 14411519022333951 * of_nat B \<le> 18014398509481984 * (of_nat n :: rat)"
      using B0 by (simp add: q_def field_simps)
    also have "\<dots> \<longleftrightarrow> (of_nat (14411519022333951 * B) :: rat) \<le> of_nat (18014398509481984 * n)"
      by simp
    also have "\<dots> \<longleftrightarrow> 14411519022333951 * B \<le> 18014398509481984 * n"
      by (simp only: of_nat_le_iff)
    finally show ?thesis .
  qed
  show ?thesis
    unfolding newSize_def load Let_def fless.simps fge.simps half_MaxLoadBalance
    unfolding MaxLoadBalance_eq
    by (simp only: lo hi)
qed

section \<open>Evaluating the examples\<close>

lemma identity_map_sel:
  "MULTI identity_map = False" "hasher identity_map k = k"
  "keyEqualFunc identity_map a b = (a = b)" "getKey identity_map v = fst v"
  "is_arithmetic identity_map = True"
  by (simp_all add: identity_map_def)

lemma identity_multimap_sel:
  "MULTI identity_multimap = True" "hasher identity_multimap k = k"
  "keyEqualFunc identity_multimap a b = (a = b)" "getKey identity_multimap v = fst v"
  "is_arithmetic identity_multimap = True"
  "extractPartialHash identity_multimap h = extractPartialHash identity_map h"
  by (simp_all add: identity_map_def identity_multimap_def extractPartialHash_def)

lemma partial_hashes:
  "extractPartialHash identity_map 0 = 128"
  "extractPartialHash identity_map 1 = 233"
  "extractPartialHash identity_map 2 = 211"
  "extractPartialHash identity_map 1024 = 247"
  "extractPartialHash identity_map 4294967296 = 136"
  by (simp_all add: extractPartialHash_def identity_map_def rapid_mix_fold_def VALID_BIT_def)

lemma Suc_Suc_0: "Suc (Suc 0) = 2"
  by simp

lemma trunc32: "(4294967296 :: 32 word) = 0"
  by simp

lemmas eval_defs = insert_kv_def emplace_def allocate_def emplace_probed_def probe.simps umod_def vec_at_def vec_put_def vec_back_def
  getLocationEmpty_def checkForDuplicate_def getPartialHash_def getPartialHashEx_def getRedirectInfo_def
  comparePartialHashEx_def getKeyS_def checkIfOverflowPossible_def UINT_MAX_def attemptToAdd_def
  appendMultimap_def Iterator_def Iterator4_def end_it_def it_eq_def it_key_def extractPartialHashEx_def
  SimpleHashTable_def SimpleHashTable_init_def size_table_def loadTooHigh_iff newSize_iff newSize_0
  search_def find_key_def erase_def remove_def elementsAtLocation_def findLastSpot.simps shiftBack.simps
  swapDataStorageAndDelete_def swapExtraKeyStorageAndDelete_def getDistanceFromDesiredSpot_def
  rebalance_def forceRehash_def specialInsert_def specialInsert_loop.simps Let_def
  identity_map_sel identity_multimap_sel partial_hashes Suc_Suc_0 trunc32

lemma rebalance_loop_append:
  "rebalance_loop t (xs @ ys) new = do { n \<leftarrow> rebalance_loop t xs new; rebalance_loop t ys n }"
  by (induction xs arbitrary: new) (auto split: Option.bind_split)

lemma rebalance_loop_empty:
  "\<forall>i \<in> set xs. i < length (fastHashInfo t) \<and> fastHashInfo t ! i = 0
     \<Longrightarrow> rebalance_loop t xs new = Some new"
  by (induction xs) (simp_all add: getLocationEmpty_def vec_at_def)

lemma erase_gap_inserts:
  "inserts identity_map SimpleHashTable [(1, ''x''), (0, ''y''), (1024, ''z'')] = Some erase_gap_before"
  by (simp add: erase_gap_before_def eval_defs)

lemma erase_gap_erase:
  "map_option snd (erase identity_map erase_gap_before 0) = Some erase_gap_after"
  by (simp add: erase_gap_before_def erase_gap_after_def eval_defs)

lemma erase_gap_find:
  "find_key identity_map erase_gap_after 1024 = end_it identity_map erase_gap_after"
  by (simp add: erase_gap_after_def eval_defs)

lemma erase_gap_slots:
  "fastHashInfo erase_gap_after ! 2 \<noteq> 0"
  "start_position identity_map erase_gap_after 2 = 0"
  "fastHashInfo erase_gap_after ! 0 = 0"
  "arr erase_gap_after ! 1 = [(1024, ''z'')]"
  by (simp_all add: erase_gap_after_def start_position_def identity_map_sel)

lemma erase_gap_insert:
  "insert_kv identity_map erase_gap_after (1024, ''w'')
     = Some (Inr \<lparr>all = False, index = 2, listIterator = None, it_rehashCounter = 0, bucketIndex = 0\<rparr>,
             erase_gap_again)"
  by (simp add: erase_gap_after_def erase_gap_again_def eval_defs)

lemma erase_gap_find_again:
  "find_key identity_map erase_gap_again 1024
     = Some \<lparr>all = False, index = 2, listIterator = None, it_rehashCounter = 0, bucketIndex = 0\<rparr>"
  by (simp add: erase_gap_again_def eval_defs)

lemma stale_inserts:
  "inserts identity_map SimpleHashTable [(0, ''x''), (1024, ''z'')] = Some stale_before"
  by (simp add: stale_before_def eval_defs)

lemma stale_erase:
  "map_option snd (erase identity_map stale_before 0) = Some stale_after"
  by (simp add: stale_before_def stale_after_def eval_defs)

lemma stale_slots:
  "fastHashInfo stale_after ! 0 \<noteq> 0" "fastHashInfo stale_after ! 1 \<noteq> 0"
  "snd (redirectInfo stale_after ! 0) = snd (redirectInfo stale_after ! 1)"
  "length (arr stale_after) = 1"
  by (simp_all add: stale_after_def)

lemma trunc_inserts:
  "inserts identity_map (SimpleHashTable_init 2050) [(4294967296, ''x'')] = Some trunc_before"
  by (simp add: trunc_before_def eval_defs)

lemma trunc_find_before:
  "find_key identity_map trunc_before 4294967296
     = Some \<lparr>all = False, index = 0, listIterator = None, it_rehashCounter = 0, bucketIndex = 2046\<rparr>"
  by (simp add: trunc_before_def eval_defs)

lemma upt_2050: "[0..<2050] = [0..<2046] @ 2046 # [2047..<2050]"
proof -
  have "[0..<2046 + 4] = [0..<2046] @ [2046..<2046 + 4]" by (rule upt_add_eq_append) simp
  moreover have "[2046..<2050] = 2046 # [Suc 2046..<2050]" by (rule upt_conv_Cons) simp
  ultimately show ?thesis by simp
qed

lemma trunc_rehash: "forceRehash trunc_before = Some trunc_after"
proof -
  let ?t = "trunc_before\<lparr>rehashCounter := 1\<rparr>"
  let ?new = "(replicate 1025 (0 :: 8 word), replicate 1025 (0 :: 32 word, 0 :: 32 word))"
  have a: "rebalance_loop ?t [0..<2046] ?new = Some ?new"
    by (rule rebalance_loop_empty) (simp add: trunc_before_def)
  have b: "rebalance_loop ?t [2047..<2050] n = Some n" for n
    by (rule rebalance_loop_empty) (auto simp add: trunc_before_def)
  have "rebalance_loop ?t [0..<2050] ?new
          = Some ((replicate 1025 0)[0 := 136], (replicate 1025 (0, 0))[0 := (0, 0)])"
    unfolding upt_2050 rebalance_loop_append a
    by (simp add: b) (simp add: trunc_before_def eval_defs)
  then show ?thesis
    by (simp add: forceRehash_def rebalance_def trunc_before_def trunc_after_def newSize_iff Let_def)
qed

lemma trunc_find_after:
  "find_key identity_map trunc_after 4294967296 = end_it identity_map trunc_after"
  "end_it identity_map trunc_after
     = Some \<lparr>all = True, index = 1, listIterator = None, it_rehashCounter = 1, bucketIndex = - 1\<rparr>"
  by (simp_all add: trunc_after_def eval_defs)

lemma multi_inserts:
  "inserts identity_multimap SimpleHashTable [(1, ''a''), (1, ''b''), (1, ''c'')] = Some multi_three"
  by (simp add: multi_three_def eval_defs)

lemma multi_find:
  "find_key identity_multimap multi_three 1
     = Some \<lparr>all = False, index = 0, listIterator = Some 0, it_rehashCounter = 0, bucketIndex = 1\<rparr>"
  by (simp add: multi_three_def eval_defs)

lemma multi_end: "end_it identity_multimap multi_three = None"
  by (simp add: multi_three_def eval_defs)

lemma multi_erase: "erase identity_multimap multi_three 1 = None"
  by (simp add: multi_three_def eval_defs)

lemma two_keys_inserts:
  "inserts identity_map SimpleHashTable [(1, ''a''), (2, ''b'')] = Some two_keys"
  by (simp add: two_keys_def eval_defs)

lemma two_keys_find:
  "find_key identity_map two_keys 1
     = Some \<lparr>all = False, index = 0, listIterator = None, it_rehashCounter = 0, bucketIndex = 1\<rparr>"
  "end_it identity_map two_keys
     = Some \<lparr>all = True, index = 2, listIterator = None, it_rehashCounter = 0, bucketIndex = - 1\<rparr>"
  by (simp_all add: two_keys_def eval_defs)

section \<open>General lemmas\<close>

lemma it_eq_refl: "it_eq P a a"
  by (simp add: it_eq_def)

lemma bind_not_SomeI: "(\<And>x. f x \<noteq> Some z) \<Longrightarrow> Option.bind m f \<noteq> Some z"
  by (cases m) auto

lemma emplace_not_Inl:
  "\<not> checkIfOverflowPossible (allocate t) \<Longrightarrow> emplace P t v \<noteq> Some (Inl e, s)"
  by (auto simp add: emplace_def Let_def bind_eq_Some_conv)

lemma allocate_allocated: "fastHashInfo t \<noteq> [] \<Longrightarrow> allocate t = t"
  by (simp add: allocate_def)

lemma allocate_arr: "arr (allocate t) = arr t"
  by (simp add: allocate_def)

section \<open>Bucket counts\<close>

lemma vec_put_length: "vec_put xs i v = Some ys \<Longrightarrow> length ys = length xs"
  by (auto simp add: vec_put_def split: if_splits)

lemma shiftBack_length:
  assumes "shiftBack t p b = Some t'"
  shows "length (fastHashInfo t') = length (fastHashInfo t) \<and> arr t' = arr t
         \<and> extraKeyStorage t' = extraKeyStorage t \<and> totalElements t' = totalElements t
         \<and> rehashCounter t' = rehashCounter t"
proof (rule shiftBack.raw_induct [where P = "\<lambda>t p b t'.
         length (fastHashInfo t') = length (fastHashInfo t) \<and> arr t' = arr t
         \<and> extraKeyStorage t' = extraKeyStorage t \<and> totalElements t' = totalElements t
         \<and> rehashCounter t' = rehashCounter t", OF _ assms], goal_cases)
  case (1 f s p b s')
  from 1(2) show ?case
    by (auto simp add: bind_eq_Some_conv vec_put_def split: if_splits dest!: 1(1))
qed

lemma specialInsert_length:
  assumes "specialInsert t i nh nr = Some new"
  shows "length (fst new) = length nh \<and> length (snd new) = length nr"
  using assms
  by (auto simp add: specialInsert_def bind_eq_Some_conv vec_put_def split: if_splits)

lemma rebalance_loop_length:
  "rebalance_loop t xs new = Some new' \<Longrightarrow>
     length (fst new') = length (fst new) \<and> length (snd new') = length (snd new)"
proof (induction xs arbitrary: new)
  case Nil
  then show ?case by simp
next
  case (Cons i xs)
  from Cons.prems obtain e where e: "getLocationEmpty (fastHashInfo t) i = Some e"
    and r: "(if e then rebalance_loop t xs new
             else do { n \<leftarrow> specialInsert t i (fst new) (snd new); rebalance_loop t xs n }) = Some new'"
    by (auto simp add: bind_eq_Some_conv)
  show ?case
  proof (cases e)
    case True
    with r show ?thesis using Cons.IH by simp
  next
    case False
    with r obtain n where n: "specialInsert t i (fst new) (snd new) = Some n"
      and l: "rebalance_loop t xs n = Some new'"
      by (auto simp add: bind_eq_Some_conv)
    from Cons.IH [OF l] specialInsert_length [OF n] show ?thesis by simp
  qed
qed

lemma newSize_ge: "1024 \<le> newSize n B"
  by (simp add: newSize_def Let_def)

lemma rebalance_buckets:
  assumes "rebalance t = Some t'"
  shows "length (fastHashInfo t') = newSize (length (arr t)) (length (fastHashInfo t))
       \<and> arr t' = arr t \<and> extraKeyStorage t' = extraKeyStorage t
       \<and> totalElements t' = totalElements t \<and> rehashCounter t' = rehashCounter t + 1"
  using assms
  by (auto simp add: rebalance_def Let_def bind_eq_Some_conv dest!: rebalance_loop_length)


lemma appendMultimap_buckets:
  "appendMultimap P t loc v = Some (it, t') \<Longrightarrow>
     fastHashInfo t' = fastHashInfo t \<and> length (arr t') = length (arr t)
     \<and> rehashCounter t' = rehashCounter t"
  by (auto simp add: appendMultimap_def Let_def bind_eq_Some_conv split: if_splits)

lemma emplace_probed_buckets:
  assumes "emplace_probed P t v = Some (it, t')" and "1024 \<le> length (fastHashInfo t)"
  shows "1024 \<le> length (fastHashInfo t')"
proof -
  define h where "h = hasher P (getKey P v)"
  from assms(1) obtain found where
    rest: "(if fst found
         then appendMultimap P t (snd found) v
         else do {
           fh \<leftarrow> vec_put (fastHashInfo (attemptToAdd P t v)) (snd found) (extractPartialHash P h);
           ri \<leftarrow> vec_put (redirectInfo (attemptToAdd P t v)) (snd found)
                   (ucast h, of_nat (length (arr (attemptToAdd P t v)) - 1));
           it \<leftarrow> Iterator P (attemptToAdd P t v\<lparr>fastHashInfo := fh, redirectInfo := ri\<rparr>)
                   (length (arr (attemptToAdd P t v\<lparr>fastHashInfo := fh, redirectInfo := ri\<rparr>)) - 1) False;
           t4 \<leftarrow> (if loadTooHigh (length (arr (attemptToAdd P t v\<lparr>fastHashInfo := fh, redirectInfo := ri\<rparr>)))
                        (length (fastHashInfo (attemptToAdd P t v\<lparr>fastHashInfo := fh, redirectInfo := ri\<rparr>)))
                  then rebalance (attemptToAdd P t v\<lparr>fastHashInfo := fh, redirectInfo := ri\<rparr>)
                  else Some (attemptToAdd P t v\<lparr>fastHashInfo := fh, redirectInfo := ri\<rparr>));
           Some (it\<lparr>bucketIndex := of_nat (snd found)\<rparr>, t4\<lparr>totalElements := totalElements t4 + 1\<rparr>) })
       = Some (it, t')"
    unfolding emplace_probed_def Let_def h_def bind_eq_Some_conv by blast
  show ?thesis
  proof (cases "fst found")
    case True
    with rest have "appendMultimap P t (snd found) v = Some (it, t')" by simp
    then show ?thesis using assms(2) by (auto dest!: appendMultimap_buckets)
  next
    case False
    with rest obtain fh ri t4 where
      fh: "vec_put (fastHashInfo (attemptToAdd P t v)) (snd found) (extractPartialHash P h) = Some fh"
      and t4: "(if loadTooHigh (length (arr (attemptToAdd P t v))) (length fh)
                  then rebalance (attemptToAdd P t v\<lparr>fastHashInfo := fh, redirectInfo := ri\<rparr>)
                  else Some (attemptToAdd P t v\<lparr>fastHashInfo := fh, redirectInfo := ri\<rparr>)) = Some t4"
      and t': "t' = t4\<lparr>totalElements := totalElements t4 + 1\<rparr>"
      by (auto simp add: bind_eq_Some_conv)
    have "length fh = length (fastHashInfo t)"
      using vec_put_length [OF fh] by (simp add: attemptToAdd_def)
    then have "1024 \<le> length (fastHashInfo t4)"
      using t4 assms(2) newSize_ge by (auto split: if_splits dest!: rebalance_buckets)
    then show ?thesis by (simp add: t')
  qed
qed

lemma allocate_buckets:
  "length (fastHashInfo t) = 0 \<or> 1024 \<le> length (fastHashInfo t) \<Longrightarrow>
     1024 \<le> length (fastHashInfo (allocate t))"
  by (auto simp add: allocate_def)

lemma emplace_buckets:
  assumes "emplace P t v = Some (r, t')"
    and "length (fastHashInfo t) = 0 \<or> 1024 \<le> length (fastHashInfo t)"
  shows "1024 \<le> length (fastHashInfo t')"
proof (cases "checkIfOverflowPossible (allocate t)")
  case True
  then have "t' = allocate t" using assms(1) by (simp add: emplace_def Let_def)
  then show ?thesis using allocate_buckets [OF assms(2)] by simp
next
  case False
  then obtain it where "emplace_probed P (allocate t) v = Some (it, t')"
    using assms(1) by (auto simp add: emplace_def Let_def bind_eq_Some_conv)
  then show ?thesis using allocate_buckets [OF assms(2)] by (rule emplace_probed_buckets)
qed

lemma removeFromList_buckets:
  "removeFromList P t it = Some (r, t') \<Longrightarrow>
     fastHashInfo t' = fastHashInfo t \<and> length (arr t') = length (arr t)"
  by (auto simp add: removeFromList_def Let_def bind_eq_Some_conv split: if_splits)

lemma swapData_buckets:
  "swapDataStorageAndDelete t i = Some t' \<Longrightarrow> fastHashInfo t' = fastHashInfo t"
  by (auto simp add: swapDataStorageAndDelete_def bind_eq_Some_conv)

lemma swapExtra_buckets:
  "swapExtraKeyStorageAndDelete P t i = Some t' \<Longrightarrow> fastHashInfo t' = fastHashInfo t"
  by (auto simp add: swapExtraKeyStorageAndDelete_def bind_eq_Some_conv split: if_splits)

lemma remove_buckets:
  assumes "remove P t it d = Some (r, t')"
  shows "length (fastHashInfo t') = length (fastHashInfo t)"
  using assms
  by (auto simp add: remove_def Let_def bind_eq_Some_conv split: if_splits
      dest!: shiftBack_length removeFromList_buckets swapData_buckets swapExtra_buckets
        vec_put_length)


lemma remove_unallocated:
  "arr t = [] \<Longrightarrow> remove P t it d = Some (r, t') \<Longrightarrow> t' = t"
  by (auto simp add: remove_def bind_eq_Some_conv)

lemma first_insert:
  fixes t :: "('kv, 'k, 'r::len) table"
  assumes "fastHashInfo t = []" and "arr t = []"
  shows "\<exists>it t'. emplace P t v = Some (Inr it, t') \<and> length (fastHashInfo t') = 1024"
proof -
  define h where "h = hasher P (getKey P v)"
  define t1 where "t1 = t\<lparr>fastHashInfo := replicate 1024 0, redirectInfo := replicate 1024 (0, 0)\<rparr>"
  have a: "allocate t = t1" using assms by (simp add: allocate_def t1_def)
  have o: "\<not> checkIfOverflowPossible t1"
    using assms by (simp add: checkIfOverflowPossible_def t1_def UINT_MAX_def)
  have p: "probe P t1 ph eh k (unat h mod 1024) = Some (False, unat h mod 1024)" for ph eh k
    by (subst probe.simps) (simp add: getLocationEmpty_def vec_at_def t1_def)
  have l: "\<not> loadTooHigh (Suc 0) 1024"
    by (simp add: loadTooHigh_iff)
  have B: "length (fastHashInfo t1) = 1024" by (simp add: t1_def)
  have "\<exists>it t'. emplace_probed P t1 v = Some (it, t') \<and> length (fastHashInfo t') = 1024"
    using assms(2) l
    by (simp add: emplace_probed_def Let_def h_def [symmetric] umod_def B p)
       (simp add: t1_def attemptToAdd_def vec_put_def Iterator_def vec_at_def)
  then show ?thesis using a o by (auto simp add: emplace_def Let_def)
qed

lemma reachable_buckets:
  "reachable P t \<Longrightarrow>
     (length (fastHashInfo t) = 0 \<or> 1024 \<le> length (fastHashInfo t))
     \<and> (length (fastHashInfo t) = 0 \<longrightarrow> arr t = [])"
proof (induction rule: reachable.induct)
  case r_new
  show ?case by (simp add: SimpleHashTable_def)
next
  case (r_init n)
  show ?case by (simp add: SimpleHashTable_init_def Let_def)
next
  case (r_insert t v r t')
  from emplace_buckets [of P t v r t'] r_insert show ?case by (auto simp add: insert_kv_def)
next
  case (r_erase t k it t')
  then obtain i where "remove P t i True = Some (it, t')"
    by (auto simp add: erase_def bind_eq_Some_conv)
  from remove_buckets [OF this] remove_unallocated [OF _ this] r_erase.IH show ?case by auto
next
  case (r_erase_it t it it' t')
  then have "remove P t it False = Some (it', t')" by (simp add: erase_it_def)
  from remove_buckets [OF this] remove_unallocated [OF _ this] r_erase_it.IH show ?case by auto
next
  case (r_eraseAll t it it' t')
  then have "remove P t it True = Some (it', t')" by (simp add: eraseAll_def)
  from remove_buckets [OF this] remove_unallocated [OF _ this] r_eraseAll.IH show ?case by auto
next
  case (r_rehash t t')
  then have "rebalance t = Some t'" by (simp add: forceRehash_def)
  from rebalance_buckets [OF this] newSize_ge [of "length (arr t)" "length (fastHashInfo t)"]
  show ?case by simp
next
  case (r_clear t)
  show ?case by (simp add: clear_def)
next
  case (r_fastClear t)
  then show ?case by (simp add: fastClear_def)
qed

lemma reachable_inserts:
  "reachable P t \<Longrightarrow> inserts P t vs = Some t' \<Longrightarrow> reachable P t'"
proof (induction vs arbitrary: t)
  case Nil
  then show ?case by simp
next
  case (Cons v vs)
  from Cons.prems(2) obtain r where r: "insert_kv P t v = Some r"
    and c: "(case fst r of Inl e \<Rightarrow> None | Inr it \<Rightarrow> inserts P (snd r) vs) = Some t'"
    by (auto simp add: bind_eq_Some_conv)
  from c obtain it where "fst r = Inr it" and i: "inserts P (snd r) vs = Some t'"
    by (cases "fst r") auto
  with r have "insert_kv P t v = Some (Inr it, snd r)" by (cases r) simp
  with Cons.prems(1) have "reachable P (snd r)" by (rule r_insert)
  then show ?case using i by (rule Cons.IH)
qed

lemma rebalance_all_empty:
  fixes t :: "('kv, 'k, 'r::len) table"
  assumes "fastHashInfo t = replicate B 0"
  shows "rebalance t = Some (t\<lparr>rehashCounter := rehashCounter t + 1,
           fastHashInfo := replicate (newSize (length (arr t)) B) 0,
           redirectInfo := replicate (newSize (length (arr t)) B) (0, 0)\<rparr>)"
proof -
  let ?t = "t\<lparr>rehashCounter := rehashCounter t + 1\<rparr>"
  have "rebalance_loop ?t [0..<B] new = Some new" for new
    by (rule rebalance_loop_empty) (simp add: assms)
  then show ?thesis by (simp add: rebalance_def Let_def assms)
qed

section \<open>Insertion of new keys\<close>


















lemma inserts_append:
  "inserts P t (xs @ ys) = do { u \<leftarrow> inserts P t xs; inserts P u ys }"
proof (induction xs arbitrary: t)
  case Nil
  show ?case by simp
next
  case (Cons x xs)
  show ?case
  proof (cases "insert_kv P t x")
    case None
    then show ?thesis by simp
  next
    case (Some r)
    then show ?thesis using Cons.IH by (cases "fst r") simp_all
  qed
qed












lemma length_first_keys: "length (first_keys n) = n"
  by (simp add: first_keys_def)




section \<open>The bucket count of the table of \<^verbatim>\<open>SimpleHashTable.h\<close>\<close>

lemma rebalance_h_buckets:
  assumes "rebalance_h t = Some t'"
  shows "length (fastHashInfo t') = (2 * length (fastHashInfo t)) mod 2 ^ 64"
  using assms
  by (auto simp add: rebalance_h_def Let_def bind_eq_Some_conv mult.commute
      dest!: rebalance_loop_length)

lemma rebalance_h_all_empty:
  fixes t :: "('kv, 'k, 'r::len) table"
  assumes "fastHashInfo t = replicate B 0"
  shows "rebalance_h t = Some (t\<lparr>fastHashInfo := replicate ((B * 2) mod 2 ^ 64) 0,
           redirectInfo := replicate ((B * 2) mod 2 ^ 64) (0, 0)\<rparr>)"
proof -
  have "rebalance_loop t [0..<B] new = Some new" for new
    by (rule rebalance_loop_empty) (simp add: assms)
  then show ?thesis by (simp add: rebalance_h_def Let_def assms)
qed

section \<open>A rehash between two insertions of one key\<close>

lemma extractPartialHash_nonzero: "extractPartialHash P h \<noteq> 0"
proof -
  have "bit (extractPartialHash P h) 7"
    by (simp add: extractPartialHash_def VALID_BIT_def bit_ucast_iff bit_or_iff)
  then show ?thesis by auto
qed

lemma upd_map_upt:
  "n < B \<Longrightarrow> (map f [0..<B])[n := x] = map (\<lambda>i. if i = n then x else f i) [0..<B]"
  by (rule nth_equalityI) (auto simp add: nth_list_update)

lemma emplace_empty_slot:
  fixes t :: "('kv, 'k, 'r::len) table"
  assumes ne: "fastHashInfo t \<noteq> []" and ok: "\<not> checkIfOverflowPossible t"
    and s: "s = unat (hasher P (getKey P v)) mod length (fastHashInfo t)"
    and e: "fastHashInfo t ! s = 0"
    and lr: "length (redirectInfo t) = length (fastHashInfo t)"
    and ta: "ta = (attemptToAdd P t v)\<lparr>
              fastHashInfo := (fastHashInfo t)[s := extractPartialHash P (hasher P (getKey P v))],
              redirectInfo := (redirectInfo t)[s := (ucast (hasher P (getKey P v)), of_nat (length (arr t)))]\<rparr>"
    and tb: "(if loadTooHigh (Suc (length (arr t))) (length (fastHashInfo t))
              then rebalance ta else Some ta) = Some tb"
  shows "\<exists>it. emplace P t v = Some (Inr it, tb\<lparr>totalElements := totalElements tb + 1\<rparr>)"
proof -
  let ?h = "hasher P (getKey P v)"
  let ?t2 = "attemptToAdd P t v"
  let ?B = "length (fastHashInfo t)"
  have B0: "0 < ?B" using ne by simp
  have sB: "s < ?B" using B0 by (simp add: s)
  have a: "allocate t = t" using ne by (simp add: allocate_def)
  have la: "length (arr ta) = Suc (length (arr t))" by (simp add: ta attemptToAdd_def)
  have fa: "length (fastHashInfo ta) = ?B" by (simp add: ta)
  have "\<exists>it0. Iterator P ta (length (arr t)) False = Some it0"
    using la by (simp add: Iterator_def vec_at_def)
  then obtain it0 where it0: "Iterator P ta (Suc (length (arr t)) - 1) False = Some it0" by auto
  have e1: "umod (unat ?h) ?B = Some s" using B0 by (simp add: umod_def s)
  have p: "probe P t (extractPartialHash P ?h) (extractPartialHashEx ?h) (getKey P v) s = Some (False, s)"
    using sB e by (subst probe.simps) (simp add: getLocationEmpty_def vec_at_def)
  have ea: "vec_put (fastHashInfo ?t2) s (extractPartialHash P ?h)
      = Some ((fastHashInfo t)[s := extractPartialHash P ?h])"
    using sB by (simp add: vec_put_def attemptToAdd_def)
  have eb: "vec_put (redirectInfo ?t2) s (ucast ?h, of_nat (length (arr ?t2) - 1))
      = Some ((redirectInfo t)[s := (ucast ?h, of_nat (length (arr t)))])"
    using sB lr by (simp add: vec_put_def attemptToAdd_def)
  have "emplace_probed P t v =
      do { tb \<leftarrow> (if loadTooHigh (Suc (length (arr t))) ?B then rebalance ta else Some ta);
           Some (it0\<lparr>bucketIndex := of_nat s\<rparr>, tb\<lparr>totalElements := totalElements tb + 1\<rparr>) }"
    unfolding emplace_probed_def Let_def
    by (simp only: e1 p ea eb ta [symmetric] it0 la fa bind.bind_lunit fst_conv snd_conv if_False)
  then show ?thesis using a ok tb by (simp add: emplace_def Let_def)
qed

lemma first_keys_Suc: "first_keys (Suc n) = first_keys n @ [(of_nat n, [])]"
  by (simp add: first_keys_def)

lemma first_keys_table_init: "first_keys_table B 0 = SimpleHashTable_init B" if "1024 \<le> B"
  using that by (simp add: first_keys_table_def SimpleHashTable_init_def first_keys_def Let_def
      map_replicate_const)

lemma first_keys_table_insert:
  assumes "n < B" "B < 2 ^ 24" "\<not> loadTooHigh (Suc n) B"
  shows "\<exists>it. emplace identity_multimap (first_keys_table B n) (of_nat n, [])
           = Some (Inr it, first_keys_table B (Suc n))"
proof -
  let ?t = "first_keys_table B n"
  have n64: "n < 2 ^ 64" using assms(1,2) by simp
  have u: "unat (of_nat n :: 64 word) = n"
    using assms(1,2) by (simp add: unat_of_nat)
  have uc: "(ucast (of_nat n :: 64 word) :: 32 word) = of_nat n"
    using n64 by (simp add: unsigned_of_nat take_bit_nat_eq_self)
  have "\<exists>it. emplace identity_multimap ?t (of_nat n, [])
      = Some (Inr it, ((attemptToAdd identity_multimap ?t (of_nat n, []))\<lparr>
              fastHashInfo := (fastHashInfo ?t)[n := extractPartialHash identity_multimap (of_nat n)],
              redirectInfo := (redirectInfo ?t)[n := (ucast (of_nat n :: 64 word), of_nat (length (arr ?t)))]\<rparr>)
            \<lparr>totalElements := totalElements ?t + 1\<rparr>)"
    using assms
    by (intro emplace_empty_slot [where s = n and tb = "(attemptToAdd identity_multimap ?t (of_nat n, []))\<lparr>
              fastHashInfo := (fastHashInfo ?t)[n := extractPartialHash identity_multimap (of_nat n)],
              redirectInfo := (redirectInfo ?t)[n := (ucast (of_nat n :: 64 word), of_nat (length (arr ?t)))]\<rparr>",
          THEN ex_forward])
      (simp_all add: first_keys_table_def identity_multimap_sel u checkIfOverflowPossible_def
        UINT_MAX_def length_first_keys attemptToAdd_def)
  moreover have "((attemptToAdd identity_multimap ?t (of_nat n, []))\<lparr>
              fastHashInfo := (fastHashInfo ?t)[n := extractPartialHash identity_multimap (of_nat n)],
              redirectInfo := (redirectInfo ?t)[n := (ucast (of_nat n :: 64 word), of_nat (length (arr ?t)))]\<rparr>)
            \<lparr>totalElements := totalElements ?t + 1\<rparr> = first_keys_table B (Suc n)"
    using assms(1)
    by (simp add: first_keys_table_def attemptToAdd_def identity_multimap_sel upd_map_upt
        first_keys_Suc length_first_keys less_Suc_eq uc cong: if_cong)
  ultimately show ?thesis by simp
qed


lemma first_keys_table_inserts:
  assumes "1024 \<le> B" "B < 2 ^ 24" "33554432 * n < 26843547 * B"
  shows "inserts identity_multimap (SimpleHashTable_init B) (first_keys n) = Some (first_keys_table B n)"
  using assms(3)
proof (induction n)
  case 0
  show ?case using assms(1) by (simp add: first_keys_def first_keys_table_init)
next
  case (Suc n)
  from Suc.prems have n: "33554432 * n < 26843547 * B" "n < B" "Suc n < 2 ^ 24"
    using assms(2) by simp_all
  from Suc.prems have "\<not> 26843547 * B \<le> 33554432 * Suc n" by simp
  then have l: "\<not> loadTooHigh (Suc n) B"
    using assms(1,2) n(3) by (simp add: loadTooHigh_iff)
  from first_keys_table_insert [OF n(2) assms(2) l] obtain it where
    "emplace identity_multimap (first_keys_table B n) (of_nat n, []) = Some (Inr it, first_keys_table B (Suc n))"
    by blast
  then show ?case
    using Suc.IH [OF n(1)] by (simp add: first_keys_Suc inserts_append insert_kv_def)
qed


lemma first_keys_table_length:
  "length (fastHashInfo (first_keys_table B n)) = B"
  "length (redirectInfo (first_keys_table B n)) = B"
  by (simp_all add: first_keys_table_def)

lemma upt_1025: "[0..<1025] = [0..<820] @ [820..<1021] @ 1021 # [1022..<1025]"
proof -
  have "[0..<820 + 205] = [0..<820] @ [820..<820 + 205]" by (rule upt_add_eq_append) simp
  moreover have "[820..<820 + 205] = [820..<1021] @ [1021..<1021 + 4]"
    using upt_add_eq_append [of 820 1021 4] by (simp del: upt_rec_numeral)
  moreover have "[1021..<1025] = 1021 # [Suc 1021..<1025]" by (rule upt_conv_Cons) simp
  ultimately show ?thesis by (simp del: upt_rec_numeral)
qed

lemma rehash_first_keys:
  fixes t :: "(64 word \<times> string, 64 word, 32) table"
  assumes fh: "\<forall>i < 820. fastHashInfo t ! i = extractPartialHash identity_map (of_nat i)"
    and ri: "\<forall>i < 820. redirectInfo t ! i = (of_nat i, of_nat i)"
    and l: "820 \<le> length (fastHashInfo t)" "820 \<le> length (redirectInfo t)"
  shows "j \<le> 820 \<Longrightarrow>
     rebalance_loop t [0..<j] (replicate 2050 0, replicate 2050 (0, 0))
       = Some (fastHashInfo (first_keys_table 2050 j), redirectInfo (first_keys_table 2050 j))"
proof (induction j)
  case 0
  show ?case by (simp add: first_keys_table_def map_replicate_const)
next
  case (Suc j)
  then have j: "j < 820" by simp
  have u: "unat (of_nat j :: 32 word) = j" using j by (simp add: unat_of_nat)
  have e: "getLocationEmpty (fastHashInfo t) j = Some False"
    using j fh l by (simp add: getLocationEmpty_def vec_at_def extractPartialHash_nonzero)
  have s: "specialInsert_loop (fastHashInfo (first_keys_table 2050 j)) j = Some j"
    using j by (subst specialInsert_loop.simps)
      (simp add: first_keys_table_def getLocationEmpty_def vec_at_def)
  have "specialInsert t j (fastHashInfo (first_keys_table 2050 j)) (redirectInfo (first_keys_table 2050 j))
      = Some (fastHashInfo (first_keys_table 2050 (Suc j)), redirectInfo (first_keys_table 2050 (Suc j)))"
    using j fh ri l
    by (simp add: specialInsert_def getPartialHashEx_def vec_at_def u umod_def s
          first_keys_table_length)
       (simp add: first_keys_table_def vec_put_def upd_map_upt less_Suc_eq cong: if_cong)
  then show ?case
    using Suc.IH j e by (simp add: rebalance_loop_append)
qed

lemma specialInsert_loop_first_keys:
  "820 - i = d \<Longrightarrow> i \<le> 820 \<Longrightarrow>
     specialInsert_loop (fastHashInfo (first_keys_table 2050 820)) i = Some 820"
proof (induction d arbitrary: i)
  case 0
  then have "i = 820" by simp
  then show ?case
    by (subst specialInsert_loop.simps)
      (simp add: first_keys_table_def getLocationEmpty_def vec_at_def)
next
  case (Suc d)
  then have i: "i < 820" and "820 - Suc i = d" by simp_all
  then have "specialInsert_loop (fastHashInfo (first_keys_table 2050 820)) (Suc i) = Some 820"
    by (intro Suc.IH) simp_all
  then show ?case
    using i by (subst specialInsert_loop.simps)
      (simp add: first_keys_table_def getLocationEmpty_def vec_at_def umod_def
        extractPartialHash_nonzero)
qed

lemma first_keys_table_sel:
  "i < n \<Longrightarrow> i < B \<Longrightarrow>
     fastHashInfo (first_keys_table B n) ! i = extractPartialHash identity_map (of_nat i)"
  "i < n \<Longrightarrow> i < B \<Longrightarrow> redirectInfo (first_keys_table B n) ! i = (of_nat i, of_nat i)"
  "n \<le> i \<Longrightarrow> i < B \<Longrightarrow> fastHashInfo (first_keys_table B n) ! i = 0"
  "length (arr (first_keys_table B n)) = n"
  "length (extraKeyStorage (first_keys_table B n)) = n"
  "totalElements (first_keys_table B n) = of_nat n"
  "rehashCounter (first_keys_table B n) = 0"
  by (simp_all add: first_keys_table_def length_first_keys)

lemma lost_key_rehash:
  "rebalance ((attemptToAdd identity_multimap (first_keys_table 1025 820) (4294967296, ''a''))\<lparr>
       fastHashInfo := (fastHashInfo (first_keys_table 1025 820))[1021 := 136],
       redirectInfo := (redirectInfo (first_keys_table 1025 820))[1021 := (0, 820)]\<rparr>)
     = Some (lost_key_first\<lparr>totalElements := 820\<rparr>)"
proof -
  define ta where "ta = (attemptToAdd identity_multimap (first_keys_table 1025 820) (4294967296, ''a''))\<lparr>
       fastHashInfo := (fastHashInfo (first_keys_table 1025 820))[1021 := 136],
       redirectInfo := (redirectInfo (first_keys_table 1025 820))[1021 := (0, 820)]\<rparr>"
  define t where "t = ta\<lparr>rehashCounter := rehashCounter ta + 1\<rparr>"
  let ?new = "(fastHashInfo (first_keys_table 2050 820), redirectInfo (first_keys_table 2050 820))"
  have fh: "fastHashInfo t = (fastHashInfo (first_keys_table 1025 820))[1021 := 136]"
    and ri: "redirectInfo t = (redirectInfo (first_keys_table 1025 820))[1021 := (0, 820)]"
    by (simp_all add: t_def ta_def)
  have a: "rebalance_loop t [0..<820] (replicate 2050 0, replicate 2050 (0, 0)) = Some ?new"
    by (rule rehash_first_keys)
      (simp_all add: fh ri first_keys_table_sel first_keys_table_length)
  have b: "rebalance_loop t [820..<1021] n = Some n" for n
    by (rule rebalance_loop_empty)
      (auto simp add: fh first_keys_table_sel first_keys_table_length simp del: upt_rec_numeral)
  have c: "rebalance_loop t [1022..<1025] n = Some n" for n
    by (rule rebalance_loop_empty)
      (auto simp add: fh first_keys_table_sel first_keys_table_length simp del: upt_rec_numeral)
  have d: "specialInsert t 1021 (fst ?new) (snd ?new)
      = Some ((fst ?new)[820 := 136], (snd ?new)[820 := (0, 820)])"
    using specialInsert_loop_first_keys [of 0 820]
    by (simp add: specialInsert_def getPartialHashEx_def vec_at_def vec_put_def umod_def
        fh ri first_keys_table_length)
  have e: "getLocationEmpty (fastHashInfo t) 1021 = Some False"
    by (simp add: getLocationEmpty_def vec_at_def fh first_keys_table_length)
  have "rebalance_loop t [0..<1025] (replicate 2050 0, replicate 2050 (0, 0))
      = Some ((fst ?new)[820 := 136], (snd ?new)[820 := (0, 820)])"
    unfolding upt_1025 rebalance_loop_append a
    using d by (simp add: b c e del: upt_rec_numeral)
  moreover have "newSize 821 1025 = 2050" by (simp add: newSize_iff)
  moreover have "length (arr ta) = 821" "length (fastHashInfo ta) = 1025"
    "length (fastHashInfo t) = 1025"
    by (simp_all add: t_def ta_def attemptToAdd_def first_keys_table_sel first_keys_table_length)
  ultimately have "rebalance ta = Some (t\<lparr>fastHashInfo := (fst ?new)[820 := 136],
      redirectInfo := (snd ?new)[820 := (0, 820)]\<rparr>)"
    by (simp add: rebalance_def Let_def t_def [symmetric])
  moreover have "t\<lparr>fastHashInfo := (fst ?new)[820 := 136],
      redirectInfo := (snd ?new)[820 := (0, 820)]\<rparr> = lost_key_first\<lparr>totalElements := 820\<rparr>"
    by (simp add: t_def ta_def attemptToAdd_def identity_multimap_sel lost_key_first_def
        first_keys_table_def)
  ultimately show ?thesis by (simp add: ta_def)
qed


lemma first_keys_table_nonempty: "0 < B \<Longrightarrow> fastHashInfo (first_keys_table B n) \<noteq> []"
  by (simp add: first_keys_table_def)

lemma lost_key_first_insert:
  "\<exists>it. emplace identity_multimap (first_keys_table 1025 820) (4294967296, ''a'')
     = Some (Inr it, lost_key_first)"
proof -
  have l: "loadTooHigh 821 1025" by (simp add: loadTooHigh_iff)
  have "\<exists>it. emplace identity_multimap (first_keys_table 1025 820) (4294967296, ''a'')
     = Some (Inr it, (lost_key_first\<lparr>totalElements := 820\<rparr>)\<lparr>totalElements :=
         totalElements (lost_key_first\<lparr>totalElements := 820\<rparr>) + 1\<rparr>)"
    using lost_key_rehash l
    by (intro emplace_empty_slot [where s = 1021])
      (simp_all add: first_keys_table_sel first_keys_table_length first_keys_table_nonempty
        identity_multimap_sel partial_hashes trunc32 checkIfOverflowPossible_def UINT_MAX_def)
  then show ?thesis by (simp add: lost_key_first_def)
qed

lemma lost_key_first_sel:
  "fastHashInfo lost_key_first = (fastHashInfo (first_keys_table 2050 820))[820 := 136]"
  "redirectInfo lost_key_first = (redirectInfo (first_keys_table 2050 820))[820 := (0, 820)]"
  "arr lost_key_first = arr (first_keys_table 2050 820) @ [[(4294967296, ''a'')]]"
  by (simp_all add: lost_key_first_def)

lemma lost_key_second_insert:
  "\<exists>it. emplace identity_multimap lost_key_first (4294967296, ''b'')
     = Some (Inr it, lost_key_before)"
proof -
  have l: "\<not> loadTooHigh 822 2050" by (simp add: loadTooHigh_iff)
  define tb where "tb = (attemptToAdd identity_multimap lost_key_first (4294967296, ''b''))\<lparr>
       fastHashInfo := (fastHashInfo lost_key_first)[2046 := 136],
       redirectInfo := (redirectInfo lost_key_first)[2046 := (0, 821)]\<rparr>"
  have "\<exists>it. emplace identity_multimap lost_key_first (4294967296, ''b'')
     = Some (Inr it, tb\<lparr>totalElements := totalElements tb + 1\<rparr>)"
    using l
    by (intro emplace_empty_slot [where s = 2046 and ta = tb])
      (simp_all add: tb_def lost_key_first_sel first_keys_table_sel first_keys_table_nonempty
        first_keys_table_length identity_multimap_sel partial_hashes trunc32
        checkIfOverflowPossible_def UINT_MAX_def)
  moreover have "tb\<lparr>totalElements := totalElements tb + 1\<rparr> = lost_key_before"
    by (simp add: tb_def attemptToAdd_def identity_multimap_sel lost_key_first_def
        lost_key_before_def)
  ultimately show ?thesis by simp
qed

lemma lost_key_inserts:
  "inserts identity_multimap (first_keys_table 1025 820) [(4294967296, ''a''), (4294967296, ''b'')]
     = Some lost_key_before"
  using lost_key_first_insert lost_key_second_insert by (auto simp add: insert_kv_def)


lemma lost_key_find:
  "find_key identity_multimap lost_key_before 4294967296
     = Some \<lparr>all = False, index = 821, listIterator = Some 0, it_rehashCounter = 1, bucketIndex = 2046\<rparr>"
  by (simp add: lost_key_before_def first_keys_table_sel first_keys_table_length eval_defs
      nth_append)

lemma lost_key_erase:
  "map_option snd (erase identity_multimap lost_key_before 4294967296) = Some lost_key_after"
  by (simp add: lost_key_before_def lost_key_after_def first_keys_table_sel
      first_keys_table_length first_keys_table_nonempty eval_defs nth_append list_update_append
      butlast_append)

lemma lost_key_find_after:
  "find_key identity_multimap lost_key_after 4294967296 = end_it identity_multimap lost_key_after"
  "end_it identity_multimap lost_key_after
     = Some \<lparr>all = True, index = 821, listIterator = None, it_rehashCounter = 1, bucketIndex = - 1\<rparr>"
  by (simp_all add: lost_key_after_def first_keys_table_sel first_keys_table_length eval_defs
      nth_append)

section \<open>The claims\<close>

text \<open>
  C1 (fails on the code). The claim: \<^verbatim>\<open>force_rehash\<close> changes neither \<^verbatim>\<open>size()\<close> nor the data
  array, re-uses the stored hash of each bucket, and \<^verbatim>\<open>find\<close> returns the same element
  before and after it. The stored hash is the hash truncated to 32 bits, and
  \<^verbatim>\<open>specialInsert\<close> takes it modulo the new bucket count while \<^verbatim>\<open>search\<close> takes the full
  64-bit hash modulo the bucket count. A table constructed with the size hint 2050 holds
  the one key \<open>2^32\<close>, which \<^verbatim>\<open>find\<close> returns at index 0; \<^verbatim>\<open>force_rehash\<close> halves the bucket
  count to 1025 and leaves the data array and the size alone, but moves the entry from
  bucket 2046 to bucket 0, and \<^verbatim>\<open>find\<close> of the same key then starts at bucket 1021 and returns
  \<^verbatim>\<open>end()\<close>.
\<close>

theorem force_rehash_loses_key:
  "inserts identity_map (SimpleHashTable_init 2050) [(4294967296, ''x'')] = Some trunc_before
   \<and> find_key identity_map trunc_before 4294967296
       = Some \<lparr>all = False, index = 0, listIterator = None, it_rehashCounter = 0, bucketIndex = 2046\<rparr>
   \<and> forceRehash trunc_before = Some trunc_after
   \<and> arr trunc_after = arr trunc_before
   \<and> size_table trunc_after = size_table trunc_before
   \<and> getTotalBuckets trunc_after = 1025
   \<and> find_key identity_map trunc_after 4294967296 = end_it identity_map trunc_after
   \<and> end_it identity_map trunc_after
       = Some \<lparr>all = True, index = 1, listIterator = None, it_rehashCounter = 1, bucketIndex = - 1\<rparr>"
  using trunc_inserts trunc_find_before trunc_rehash trunc_find_after
  by (simp add: trunc_before_def trunc_after_def size_table_def getTotalBuckets_def)

text \<open>
  In a single-variant table, when \<^verbatim>\<open>find\<close> returns a stored element for the key of \<open>v\<close>
  (an iterator different from \<^verbatim>\<open>end()\<close>) and the data array is below the overflow guard,
  \<^verbatim>\<open>emplace\<close> of \<open>v\<close> returns that same iterator and leaves the whole table as it was. So it
  is in scenario S1 of the spec: after \<^verbatim>\<open>insert(1,"a"); insert(2,"b")\<close>, \<^verbatim>\<open>insert(1,"c")\<close>
  changes nothing.
\<close>

lemma emplace_existing_key:
  assumes single: "\<not> MULTI P"
    and found: "find_key P t (getKey P v) = Some it"
    and e: "end_it P t = Some e"
    and ne: "\<not> it_eq P it e"
    and ok: "\<not> checkIfOverflowPossible t"
  shows "emplace P t v = Some (Inr it, t)"
proof -
  define h where "h = hasher P (getKey P v)"
  have arr: "length (arr t) \<noteq> 0"
  proof
    assume "length (arr t) = 0"
    then have "it = e" using found e by (simp add: find_key_def search_def)
    then show False using ne it_eq_refl [of P e] by simp
  qed
  then have s: "do { location \<leftarrow> umod (unat h) (length (fastHashInfo t));
             f \<leftarrow> probe P t (extractPartialHash P h) (extractPartialHashEx h) (getKey P v) location;
             if fst f
             then do { r \<leftarrow> getRedirectInfo t (snd f);
                       returnIt \<leftarrow> Iterator P t (unat r) False;
                       Some (returnIt\<lparr>bucketIndex := of_nat (snd f)\<rparr>) }
             else end_it P t } = Some it"
    using found by (simp add: find_key_def search_def Let_def h_def)
  then obtain location f where
    loc: "umod (unat h) (length (fastHashInfo t)) = Some location"
    and f: "probe P t (extractPartialHash P h) (extractPartialHashEx h) (getKey P v) location = Some f"
    and r: "(if fst f
             then do { r \<leftarrow> getRedirectInfo t (snd f);
                       returnIt \<leftarrow> Iterator P t (unat r) False;
                       Some (returnIt\<lparr>bucketIndex := of_nat (snd f)\<rparr>) }
             else end_it P t) = Some it"
    by (auto simp add: bind_eq_Some_conv)
  have hit: "fst f"
  proof (rule ccontr)
    assume "\<not> fst f"
    then have "it = e" using r e by simp
    then show False using ne it_eq_refl [of P e] by simp
  qed
  have B: "length (fastHashInfo t) \<noteq> 0" using loc by (auto simp add: umod_def split: if_splits)
  from r hit obtain rd returnIt where
    rd: "getRedirectInfo t (snd f) = Some rd"
    and it: "Iterator P t (unat rd) False = Some returnIt"
    and eq: "returnIt\<lparr>bucketIndex := of_nat (snd f)\<rparr> = it"
    by (auto simp add: bind_eq_Some_conv)
  have "appendMultimap P t (snd f) v = Some (it, t)"
    using single rd it eq by (simp add: appendMultimap_def Let_def)
  then have "emplace_probed P t v = Some (it, t)"
    using loc f hit by (simp add: emplace_probed_def Let_def h_def)
  then show ?thesis
    using B ok by (simp add: emplace_def Let_def allocate_def)
qed

lemma emplace_existing_key_S1:
  "inserts identity_map SimpleHashTable [(1, ''a''), (2, ''b'')] = Some two_keys
   \<and> \<not> MULTI identity_map
   \<and> find_key identity_map two_keys (getKey identity_map (1, ''c''))
       = Some \<lparr>all = False, index = 0, listIterator = None, it_rehashCounter = 0, bucketIndex = 1\<rparr>
   \<and> arr two_keys ! 0 = [(1, ''a'')]
   \<and> size_table two_keys = 2
   \<and> emplace identity_map two_keys (1, ''c'')
       = Some (Inr \<lparr>all = False, index = 0, listIterator = None, it_rehashCounter = 0, bucketIndex = 1\<rparr>,
               two_keys)"
proof -
  let ?it = "\<lparr>all = False, index = 0, listIterator = None, it_rehashCounter = 0, bucketIndex = 1\<rparr>"
  let ?e = "\<lparr>all = True, index = 2, listIterator = None, it_rehashCounter = 0, bucketIndex = - 1\<rparr>"
  have 1: "\<not> MULTI identity_map" by (simp add: identity_map_sel)
  have 2: "find_key identity_map two_keys (getKey identity_map (1, ''c'')) = Some ?it"
    using two_keys_find(1) by (simp add: identity_map_sel)
  have 3: "end_it identity_map two_keys = Some ?e" by (rule two_keys_find(2))
  have 4: "\<not> it_eq identity_map ?it ?e" by (simp add: it_eq_def)
  have 5: "\<not> checkIfOverflowPossible two_keys"
    by (simp add: checkIfOverflowPossible_def two_keys_def UINT_MAX_def)
  show ?thesis
    using emplace_existing_key [OF 1 2 3 4 5] 1 2 two_keys_inserts
    by (simp add: two_keys_def size_table_def)
qed

text \<open>
  C2 (fails on the code). The claim: in a single-variant table, the insertion of a key that
  is already present inserts nothing, leaves \<^verbatim>\<open>size()\<close> as it is and returns the stored
  element, whose value stays the first one inserted. The duplicate check of \<^verbatim>\<open>emplace\<close> walks
  the probe path of the key up to the first empty slot, and the backward shift of \<^verbatim>\<open>remove\<close>
  can leave a stored key behind an empty slot (C3). On a fresh table,
  \<^verbatim>\<open>insert(1,"x"); insert(0,"y"); insert(1024,"z"); erase(0)\<close> leaves key 1024 stored at
  index 1 with \<^verbatim>\<open>size() = 2\<close>; \<^verbatim>\<open>insert(1024,"w")\<close> then finds bucket 0 empty, appends a second
  element with key 1024 at index 2 and returns it, \<^verbatim>\<open>size()\<close> becomes 3, and \<^verbatim>\<open>find(1024)\<close>
  returns the new element with the value \<^verbatim>\<open>"w"\<close>.
\<close>

theorem insert_duplicates_stored_key:
  "inserts identity_map SimpleHashTable [(1, ''x''), (0, ''y''), (1024, ''z'')] = Some erase_gap_before
   \<and> map_option snd (erase identity_map erase_gap_before 0) = Some erase_gap_after
   \<and> arr erase_gap_after = [[(1, ''x'')], [(1024, ''z'')]]
   \<and> size_table erase_gap_after = 2
   \<and> insert_kv identity_map erase_gap_after (1024, ''w'')
       = Some (Inr \<lparr>all = False, index = 2, listIterator = None, it_rehashCounter = 0, bucketIndex = 0\<rparr>,
               erase_gap_again)
   \<and> arr erase_gap_again = [[(1, ''x'')], [(1024, ''z'')], [(1024, ''w'')]]
   \<and> size_table erase_gap_again = 3
   \<and> find_key identity_map erase_gap_again 1024
       = Some \<lparr>all = False, index = 2, listIterator = None, it_rehashCounter = 0, bucketIndex = 0\<rparr>"
  using erase_gap_inserts erase_gap_erase erase_gap_insert erase_gap_find_again
  by (simp add: erase_gap_after_def erase_gap_again_def size_table_def)

text \<open>
  C3 (fails on the code). The claim: after any mixed sequence of insertions and erasures,
  every slot on the probe path from the starting position of an occupied bucket to the
  bucket is occupied. The backward shift of \<^verbatim>\<open>remove\<close> stops at the first bucket that sits
  in its desired spot, also when an entry behind it was displaced across the erased slot.
  On a fresh table of 1024 buckets, \<^verbatim>\<open>insert(1); insert(0); insert(1024); erase(0)\<close> leaves
  the entry of key 1024 (starting position 0) in bucket 2 and bucket 0 empty: the key is
  still stored, and \<^verbatim>\<open>find(1024)\<close> returns \<^verbatim>\<open>end()\<close>.
\<close>

theorem erase_breaks_probe_path:
  "inserts identity_map SimpleHashTable [(1, ''x''), (0, ''y''), (1024, ''z'')] = Some erase_gap_before
   \<and> map_option snd (erase identity_map erase_gap_before 0) = Some erase_gap_after
   \<and> fastHashInfo erase_gap_after ! 2 \<noteq> 0
   \<and> start_position identity_map erase_gap_after 2 = 0
   \<and> fastHashInfo erase_gap_after ! 0 = 0
   \<and> arr erase_gap_after ! 1 = [(1024, ''z'')]
   \<and> find_key identity_map erase_gap_after 1024 = end_it identity_map erase_gap_after"
  using erase_gap_inserts erase_gap_erase erase_gap_slots erase_gap_find
  by simp

text \<open>
  C4 (fails on the code). The claim: the redirection indices of the occupied buckets are a
  permutation of the indices of the data array, in every reachable state. The backward
  shift of \<^verbatim>\<open>remove\<close> copies a displaced bucket into the previous slot and never clears the
  slot it copied from. On a fresh table, \<^verbatim>\<open>insert(0); insert(1024); erase(0)\<close> leaves buckets
  0 and 1 both occupied, both with the redirection index 0 of the one remaining element.
\<close>

theorem erase_leaves_stale_bucket:
  "inserts identity_map SimpleHashTable [(0, ''x''), (1024, ''z'')] = Some stale_before
   \<and> map_option snd (erase identity_map stale_before 0) = Some stale_after
   \<and> fastHashInfo stale_after ! 0 \<noteq> 0
   \<and> fastHashInfo stale_after ! 1 \<noteq> 0
   \<and> snd (redirectInfo stale_after ! 0) = snd (redirectInfo stale_after ! 1)
   \<and> length (arr stale_after) = 1"
  using stale_inserts stale_erase stale_slots
  by simp

text \<open>
  The iterator constructor of a multi table reads \<^verbatim>\<open>arr[index].begin()\<close> whenever
  \<^verbatim>\<open>index < size()\<close>. After three insertions of key 1 there is one bucket and \<^verbatim>\<open>size() = 3\<close>;
  for \<^verbatim>\<open>end()\<close> the index is \<^verbatim>\<open>arr.size() = 1\<close>, which is below 3 and past the end of the data
  array, and \<^verbatim>\<open>erase(1)\<close> builds \<^verbatim>\<open>end()\<close> to compare it with the iterator of \<^verbatim>\<open>find(1)\<close>.
\<close>

lemma multi_end_reads_past_data:
  "inserts identity_multimap SimpleHashTable [(1, ''a''), (1, ''b''), (1, ''c'')] = Some multi_three
   \<and> size_table multi_three = 3
   \<and> length (arr multi_three) = 1
   \<and> find_key identity_multimap multi_three 1
       = Some \<lparr>all = False, index = 0, listIterator = Some 0, it_rehashCounter = 0, bucketIndex = 1\<rparr>
   \<and> end_it identity_multimap multi_three = None
   \<and> erase identity_multimap multi_three 1 = None"
  using multi_inserts multi_find multi_end multi_erase
  by (simp add: multi_three_def size_table_def)

text \<open>
  C7 (fails on the code). The claim: in a multi table, inserting a key \<open>n\<close> times adds \<open>n\<close>
  to \<^verbatim>\<open>size()\<close>, each duplicate going to the bucket of the key, and \<^verbatim>\<open>erase\<close> of the key takes
  \<open>n\<close> away again. A rehash between two insertions of the key separates them:
  \<^verbatim>\<open>specialInsert\<close> places the bucket by the stored hash, which is the hash truncated to 32
  bits, and the next insertion probes from the 64-bit hash (C1). A multi map built with the
  size hint 1025 holds the keys \<open>0, \<dots>, 819\<close> and not the key \<open>2^32\<close>. The first insertion of
  \<open>2^32\<close> brings the data array to 821 elements and rehashes to 2050 buckets, where the
  bucket of the key lands in slot 820; the second insertion starts at slot
  \<open>2046 = 2^32 mod 2050\<close>, finds it empty and makes a second bucket. \<^verbatim>\<open>size()\<close> is 822 then;
  \<^verbatim>\<open>erase(2^32)\<close> removes the second bucket only: \<^verbatim>\<open>size()\<close> is 821, not 820, the first value
  is still the last element of the data array, and \<^verbatim>\<open>find(2^32)\<close> returns \<^verbatim>\<open>end()\<close>.
\<close>

theorem multi_erase_after_rehash:
  "inserts identity_multimap (SimpleHashTable_init 1025) (first_keys 820)
     = Some (first_keys_table 1025 820)
   \<and> size_table (first_keys_table 1025 820) = 820
   \<and> find_key identity_multimap (first_keys_table 1025 820) 4294967296
       = end_it identity_multimap (first_keys_table 1025 820)
   \<and> inserts identity_multimap (first_keys_table 1025 820)
         [(4294967296, ''a''), (4294967296, ''b'')] = Some lost_key_before
   \<and> size_table lost_key_before = 822
   \<and> getTotalBuckets lost_key_before = 2050
   \<and> rehashCounter lost_key_before = 1
   \<and> find_key identity_multimap lost_key_before 4294967296
       = Some \<lparr>all = False, index = 821, listIterator = Some 0, it_rehashCounter = 1, bucketIndex = 2046\<rparr>
   \<and> map_option snd (erase identity_multimap lost_key_before 4294967296) = Some lost_key_after
   \<and> size_table lost_key_after = 821
   \<and> last (arr lost_key_after) = [(4294967296, ''a'')]
   \<and> find_key identity_multimap lost_key_after 4294967296 = end_it identity_multimap lost_key_after"
proof -
  have "inserts identity_multimap (SimpleHashTable_init 1025) (first_keys 820)
     = Some (first_keys_table 1025 820)"
    by (rule first_keys_table_inserts) simp_all
  moreover have "find_key identity_multimap (first_keys_table 1025 820) 4294967296
       = end_it identity_multimap (first_keys_table 1025 820)"
    by (simp add: first_keys_table_sel first_keys_table_length first_keys_table_nonempty eval_defs)
  ultimately show ?thesis
    using lost_key_inserts lost_key_find lost_key_erase lost_key_find_after(1)
    by (simp add: size_table_def getTotalBuckets_def first_keys_table_sel first_keys_table_length
        lost_key_before_def lost_key_after_def)
qed

text \<open>
  C8. On a table with 32-bit redirection (not \<^verbatim>\<open>BIG\<close>) whose bucket arrays are allocated,
  \<^verbatim>\<open>emplace\<close> throws exactly when the data array holds \<^verbatim>\<open>UINT_MAX - 1\<close> entries, and the
  table at the throw is the table before the call. On a table with 64-bit redirection
  \<^verbatim>\<open>emplace\<close> never throws. (The bucket arrays of a table that holds data are allocated.)
\<close>

theorem overflow_guard:
  fixes t :: "('kv, 'k, 32) table" and tb :: "('kvb, 'kb, 64) table"
  assumes "fastHashInfo t \<noteq> []"
  shows "(length (arr t) = UINT_MAX - 1 \<longrightarrow> emplace P t v = Some (Inl TOO_LARGE, t))
       \<and> (length (arr t) \<noteq> UINT_MAX - 1 \<longrightarrow> (\<forall>e s. emplace P t v \<noteq> Some (Inl e, s)))
       \<and> (\<forall>e s. emplace Pb tb vb \<noteq> Some (Inl e, s))"
proof (intro conjI impI allI)
  assume "length (arr t) = UINT_MAX - 1"
  then show "emplace P t v = Some (Inl TOO_LARGE, t)"
    using assms by (simp add: emplace_def checkIfOverflowPossible_def allocate_allocated)
next
  fix e s
  assume "length (arr t) \<noteq> UINT_MAX - 1"
  then show "emplace P t v \<noteq> Some (Inl e, s)"
    by (intro emplace_not_Inl) (simp add: checkIfOverflowPossible_def allocate_arr)
next
  fix e s
  show "emplace Pb tb vb \<noteq> Some (Inl e, s)"
    by (intro emplace_not_Inl) (simp add: checkIfOverflowPossible_def)
qed

theorem overflow_guard_witness:
  "fastHashInfo full_data \<noteq> []
   \<and> length (arr full_data) = UINT_MAX - 1
   \<and> emplace identity_map full_data (7, ''q'') = Some (Inl TOO_LARGE, full_data)
   \<and> fastHashInfo two_keys \<noteq> []
   \<and> length (arr two_keys) \<noteq> UINT_MAX - 1
   \<and> emplace identity_map two_keys (7, ''q'') \<noteq> Some (Inl TOO_LARGE, two_keys)
   \<and> emplace identity_map (SimpleHashTable :: (64 word \<times> string, 64 word, 64) table) (7, ''q'')
       \<noteq> Some (Inl TOO_LARGE, SimpleHashTable)"
proof -
  let ?b = "SimpleHashTable :: (64 word \<times> string, 64 word, 64) table"
  have 1: "fastHashInfo full_data \<noteq> []" by (simp add: full_data_def)
  have 2: "length (arr full_data) = UINT_MAX - 1" by (simp add: full_data_def UINT_MAX_def)
  have 3: "fastHashInfo two_keys \<noteq> []" by (simp add: two_keys_def)
  have 4: "length (arr two_keys) \<noteq> UINT_MAX - 1" by (simp add: two_keys_def UINT_MAX_def)
  show ?thesis
    using overflow_guard [OF 1, of identity_map "(7, ''q'')" identity_map ?b "(7, ''q'')"]
      overflow_guard [OF 3, of identity_map "(7, ''q'')" identity_map ?b "(7, ''q'')"] 1 2 3 4
    by simp
qed

text \<open>
  C10. On a table that holds no element (empty data array, \<^verbatim>\<open>size() = 0\<close>), whatever its
  bucket arrays are and also when they were never allocated, \<^verbatim>\<open>find\<close> returns \<^verbatim>\<open>end()\<close> and
  \<^verbatim>\<open>erase\<close> returns \<^verbatim>\<open>end()\<close> and leaves the table as it was, for every key: both return before
  the hash is taken modulo the bucket count.
\<close>

theorem empty_table_find_erase:
  assumes "arr t = []" "totalElements t = 0"
  shows "end_it P t = Some \<lparr>all = True, index = 0, listIterator = None,
             it_rehashCounter = rehashCounter t, bucketIndex = - 1\<rparr>
       \<and> find_key P t k = end_it P t
       \<and> erase P t k = Some (\<lparr>all = True, index = 0, listIterator = None,
             it_rehashCounter = rehashCounter t, bucketIndex = - 1\<rparr>, t)"
  using assms
  by (simp add: find_key_def search_def end_it_def Iterator_def size_table_def erase_def remove_def)

theorem empty_table_find_erase_witness:
  "arr (SimpleHashTable :: (64 word \<times> string, 64 word, 32) table) = []
   \<and> getTotalBuckets (SimpleHashTable :: (64 word \<times> string, 64 word, 32) table) = 0
   \<and> find_key identity_map (SimpleHashTable :: (64 word \<times> string, 64 word, 32) table) 5
       = end_it identity_map (SimpleHashTable :: (64 word \<times> string, 64 word, 32) table)
   \<and> map_option snd (erase identity_map (SimpleHashTable :: (64 word \<times> string, 64 word, 32) table) 5)
       = Some SimpleHashTable"
proof -
  let ?t = "SimpleHashTable :: (64 word \<times> string, 64 word, 32) table"
  have 1: "arr ?t = []" by (simp add: SimpleHashTable_def)
  have 2: "totalElements ?t = 0" by (simp add: SimpleHashTable_def)
  show ?thesis
    using empty_table_find_erase [OF 1 2, of identity_map 5] 1
    by (simp add: getTotalBuckets_def SimpleHashTable_def)
qed

section \<open>C9: the floor of the bucket count\<close>

text \<open>
  The size-hint constructor of \<^verbatim>\<open>src/SimpleHashTable.h\<close>, which the claim cites next to the
  one of the newer table, has no floor: built with the hint 5 the table has 5 buckets, and
  \<^verbatim>\<open>forceRehash\<close> doubles them to 10.
\<close>

theorem header_constructor_no_floor:
  "getTotalBuckets (SimpleHashTable_h_init 5 :: (64 word \<times> string, 64 word, 32) table) = 5
   \<and> forceRehash_h (SimpleHashTable_h_init 5 :: (64 word \<times> string, 64 word, 32) table)
       = Some (SimpleHashTable_h_init 10)
   \<and> getTotalBuckets (SimpleHashTable_h_init 10 :: (64 word \<times> string, 64 word, 32) table) = 10"
  using rebalance_h_all_empty [of "SimpleHashTable_h_init 5 :: (64 word \<times> string, 64 word, 32) table" 5]
  by (simp add: forceRehash_h_def SimpleHashTable_h_init_def getTotalBuckets_def)

text \<open>
  Claim C9, amended. In the table of \<^verbatim>\<open>src/unnamed/part_000\<close>, whenever a bucket array is
  allocated the bucket count is at least 1024: the bucket count of every reachable state is
  0 or at least 1024; the constructor with a size hint \<open>n\<close> allocates \<open>max n 1024\<close> buckets; an
  insertion into a reachable table with no bucket array returns, and with 1024 buckets; the
  table \<^verbatim>\<open>forceRehash\<close> returns has at least 1024 buckets, whatever the table it is called on;
  and so has the table an insertion returns, also when it rehashes. In the table of
  \<^verbatim>\<open>src/SimpleHashTable.h\<close> there is no floor: the constructor with a size hint \<open>n\<close> allocates
  \<open>n\<close> buckets, and a rehash doubles the bucket count (modulo \<open>2^64\<close>) whatever it is.
\<close>

theorem bucket_count_floor:
  fixes t :: "('kv, 'k, 'r::len) table"
  shows "(reachable P t \<longrightarrow> getTotalBuckets t = 0 \<or> 1024 \<le> getTotalBuckets t)
       \<and> getTotalBuckets (SimpleHashTable_init n :: ('kv, 'k, 'r) table) = max n 1024
       \<and> (reachable P t \<and> getTotalBuckets t = 0 \<longrightarrow>
            (\<exists>it t'. insert_kv P t v = Some (Inr it, t') \<and> getTotalBuckets t' = 1024))
       \<and> (\<forall>t'. forceRehash t = Some t' \<longrightarrow> 1024 \<le> getTotalBuckets t')
       \<and> (\<forall>r t'. (getTotalBuckets t = 0 \<or> 1024 \<le> getTotalBuckets t)
              \<and> insert_kv P t v = Some (r, t') \<longrightarrow> 1024 \<le> getTotalBuckets t')
       \<and> getTotalBuckets (SimpleHashTable_h_init n :: ('kv, 'k, 'r) table) = n
       \<and> (\<forall>t'. forceRehash_h t = Some t' \<longrightarrow>
            getTotalBuckets t' = (2 * getTotalBuckets t) mod 2 ^ 64)"
proof -
  have 1: "getTotalBuckets t = 0 \<or> 1024 \<le> getTotalBuckets t" if "reachable P t"
    using reachable_buckets [OF that] by (simp add: getTotalBuckets_def)
  have 2: "getTotalBuckets (SimpleHashTable_init n :: ('kv, 'k, 'r) table) = max n 1024"
    by (simp add: getTotalBuckets_def SimpleHashTable_init_def Let_def max_def)
  have 3: "\<exists>it t'. insert_kv P t v = Some (Inr it, t') \<and> getTotalBuckets t' = 1024"
    if "reachable P t \<and> getTotalBuckets t = 0"
  proof -
    from that reachable_buckets [of P t] have "fastHashInfo t = []" "arr t = []"
      by (simp_all add: getTotalBuckets_def)
    from first_insert [OF this] show ?thesis
      by (simp add: insert_kv_def getTotalBuckets_def)
  qed
  have 4: "1024 \<le> getTotalBuckets t'" if "forceRehash t = Some t'" for t'
  proof -
    from that have "rebalance t = Some t'" by (simp add: forceRehash_def)
    from rebalance_buckets [OF this] newSize_ge [of "length (arr t)" "length (fastHashInfo t)"]
    show ?thesis by (simp add: getTotalBuckets_def)
  qed
  have 5: "1024 \<le> getTotalBuckets t'"
    if "(getTotalBuckets t = 0 \<or> 1024 \<le> getTotalBuckets t) \<and> insert_kv P t v = Some (r, t')"
    for r t'
    using that emplace_buckets [of P t v r t'] by (simp add: insert_kv_def getTotalBuckets_def)
  have 6: "getTotalBuckets (SimpleHashTable_h_init n :: ('kv, 'k, 'r) table) = n"
    by (simp add: getTotalBuckets_def SimpleHashTable_h_init_def)
  have 7: "getTotalBuckets t' = (2 * getTotalBuckets t) mod 2 ^ 64"
    if "forceRehash_h t = Some t'" for t'
    using that by (simp add: forceRehash_h_def getTotalBuckets_def rebalance_h_buckets)
  show ?thesis using 1 2 3 4 5 6 7 by blast
qed

theorem bucket_count_floor_witness:
  "(getTotalBuckets trunc_after = 0 \<or> 1024 \<le> getTotalBuckets trunc_after)
   \<and> getTotalBuckets (SimpleHashTable_init 5 :: (64 word \<times> string, 64 word, 32) table) = 1024
   \<and> getTotalBuckets (SimpleHashTable_init 2050 :: (64 word \<times> string, 64 word, 32) table) = 2050
   \<and> (\<exists>it t'. insert_kv identity_map (SimpleHashTable :: (64 word \<times> string, 64 word, 32) table) (1, ''a'')
         = Some (Inr it, t') \<and> getTotalBuckets t' = 1024)
   \<and> forceRehash trunc_before = Some trunc_after \<and> 1024 \<le> getTotalBuckets trunc_after
   \<and> getTotalBuckets (SimpleHashTable_h_init 2050 :: (64 word \<times> string, 64 word, 32) table) = 2050
   \<and> forceRehash_h (SimpleHashTable_h_init 2050 :: (64 word \<times> string, 64 word, 32) table)
       = Some (SimpleHashTable_h_init 4100)
   \<and> getTotalBuckets (SimpleHashTable_h_init 4100 :: (64 word \<times> string, 64 word, 32) table) = 4100"
proof -
  have r: "reachable identity_map trunc_before"
    using reachable_inserts [OF r_init trunc_inserts] .
  have r': "reachable identity_map trunc_after"
    using r trunc_rehash by (rule r_rehash)
  have n: "reachable identity_map (SimpleHashTable :: (64 word \<times> string, 64 word, 32) table)"
    by (rule r_new)
  have h: "forceRehash_h (SimpleHashTable_h_init 2050 :: (64 word \<times> string, 64 word, 32) table)
       = Some (SimpleHashTable_h_init 4100)"
    using rebalance_h_all_empty [of "SimpleHashTable_h_init 2050 :: (64 word \<times> string, 64 word, 32) table" 2050]
    by (simp add: forceRehash_h_def SimpleHashTable_h_init_def)
  show ?thesis
    using bucket_count_floor [of identity_map trunc_after 5 "(1, ''a'')"]
      bucket_count_floor [of identity_map trunc_before 2050 "(1, ''a'')"]
      bucket_count_floor [of identity_map "SimpleHashTable :: (64 word \<times> string, 64 word, 32) table" 5 "(1, ''a'')"]
      bucket_count_floor [of identity_map "SimpleHashTable_h_init 2050 :: (64 word \<times> string, 64 word, 32) table" 4100 "(1, ''a'')"]
      r r' n trunc_rehash h
    by (simp add: getTotalBuckets_def SimpleHashTable_def)
qed

section \<open>C6: the bucket count after a rehash\<close>

text \<open>
  \<^verbatim>\<open>rebalance\<close> compares the load, a \<^verbatim>\<open>double\<close>, with the \<^verbatim>\<open>float\<close> constants nearest to 0.8 and
  0.4, which are a little above 0.8 and 0.4. A table of 2560 buckets with 1024 elements has
  load 0.4, which is not below 0.40, and is halved to 1280 buckets; a table of 1025 buckets
  with 820 elements has load 0.8 and keeps its 1025 buckets. \<^verbatim>\<open>forceRehash\<close> on an empty
  table changes the bucket count: a table that never allocated gets 1024 buckets, an empty
  table of 4096 buckets is halved to 2048.
\<close>

theorem rehash_thresholds_differ:
  "newSize 1024 2560 = 1280
   \<and> newSize 820 1025 = 1025
   \<and> getTotalBuckets (SimpleHashTable :: (64 word \<times> string, 64 word, 32) table) = 0
   \<and> map_option getTotalBuckets (forceRehash (SimpleHashTable :: (64 word \<times> string, 64 word, 32) table))
       = Some 1024
   \<and> getTotalBuckets (SimpleHashTable_init 4096 :: (64 word \<times> string, 64 word, 32) table) = 4096
   \<and> map_option getTotalBuckets
        (forceRehash (SimpleHashTable_init 4096 :: (64 word \<times> string, 64 word, 32) table)) = Some 2048"
proof -
  have 1: "newSize 1024 2560 = 1280" by (simp add: newSize_iff)
  have 2: "newSize 820 1025 = 1025" by (simp add: newSize_iff)
  have 3: "newSize 0 4096 = 2048" by (simp add: newSize_iff)
  have 4: "forceRehash (SimpleHashTable :: (64 word \<times> string, 64 word, 32) table)
      = Some (SimpleHashTable\<lparr>rehashCounter := 1, fastHashInfo := replicate 1024 0,
           redirectInfo := replicate 1024 (0, 0)\<rparr>)"
    using rebalance_all_empty [of "SimpleHashTable :: (64 word \<times> string, 64 word, 32) table" 0]
    by (simp add: forceRehash_def SimpleHashTable_def newSize_0)
  have 5: "map_option getTotalBuckets
        (forceRehash (SimpleHashTable_init 4096 :: (64 word \<times> string, 64 word, 32) table)) = Some 2048"
    using rebalance_all_empty [of "SimpleHashTable_init 4096 :: (64 word \<times> string, 64 word, 32) table" 4096]
    by (simp add: forceRehash_def SimpleHashTable_init_def 3 getTotalBuckets_def)
  show ?thesis
    by (simp add: 1 2 4 5) (simp add: getTotalBuckets_def SimpleHashTable_def SimpleHashTable_init_def)
qed

text \<open>
  Claim C6, amended. The table \<^verbatim>\<open>forceRehash\<close> returns has the data array, the size and
  \<open>newSize n B\<close> buckets, where \<open>n\<close> is the length of the data array and \<open>B\<close> the bucket
  count before; the rehash counter is one more. For \<open>0 < B\<close> and \<open>n\<close>, \<open>B\<close> below \<open>2^53\<close>,
  \<open>newSize n B\<close> is the maximum of 1024 and of: \<open>B div 2\<close> if \<open>n / B < 14411519022333951 / 2^55\<close>
  (the double nearest to \<open>n / B\<close> is below the float nearest to 0.4, which is
  \<open>13421773 / 2^25\<close>); \<open>2 * B\<close> if \<open>n / B \<ge> 14411519022333951 / 2^54\<close> (that double is at least
  the float nearest to 0.8, which is \<open>13421773 / 2^24\<close>); \<open>B\<close> otherwise. For \<open>B = 0\<close> it is
  1024. At a load of 30 % the bucket count is halved and at least 1024. On a table fresh
  from the constructor with a size hint \<open>m\<close>, \<^verbatim>\<open>forceRehash\<close> returns the table the
  constructor builds for \<open>m div 2\<close>, with the rehash counter at one; on a table fresh from
  the default constructor, the table the constructor builds for the hint 0, with 1024
  buckets. The rehash of an insertion calls the same \<open>rebalance\<close> as \<^verbatim>\<open>forceRehash\<close>.
\<close>

theorem rehash_bucket_count:
  fixes t :: "('kv, 'k, 'r::len) table"
  shows
   "(\<forall>t'. forceRehash t = Some t' \<longrightarrow>
        getTotalBuckets t' = newSize (length (arr t)) (getTotalBuckets t)
        \<and> arr t' = arr t \<and> totalElements t' = totalElements t
        \<and> rehashCounter t' = rehashCounter t + 1)
    \<and> (0 < B \<and> n < 2 ^ 53 \<and> B < 2 ^ 53 \<longrightarrow>
         newSize n B =
           max (if 36028797018963968 * n < 14411519022333951 * B then B div 2
                else if 14411519022333951 * B \<le> 18014398509481984 * n then B * 2
                else B) 1024)
    \<and> newSize n 0 = 1024
    \<and> (0 < B \<and> B < 2 ^ 53 \<and> 10 * n = 3 * B \<longrightarrow> newSize n B = max (B div 2) 1024)
    \<and> (m < 2 ^ 53 \<longrightarrow>
         forceRehash (SimpleHashTable_init m :: ('kv, 'k, 'r) table)
           = Some ((SimpleHashTable_init (m div 2))\<lparr>rehashCounter := 1\<rparr>))
    \<and> forceRehash (SimpleHashTable :: ('kv, 'k, 'r) table)
         = Some ((SimpleHashTable_init 0)\<lparr>rehashCounter := 1\<rparr>)"
proof -
  have 1: "getTotalBuckets t' = newSize (length (arr t)) (getTotalBuckets t)
        \<and> arr t' = arr t \<and> totalElements t' = totalElements t
        \<and> rehashCounter t' = rehashCounter t + 1"
    if "forceRehash t = Some t'" for t'
  proof -
    from that have r: "rebalance t = Some t'" by (simp add: forceRehash_def)
    from rebalance_buckets [OF r] show ?thesis by (simp add: getTotalBuckets_def)
  qed
  have 2: "newSize n B =
           max (if 36028797018963968 * n < 14411519022333951 * B then B div 2
                else if 14411519022333951 * B \<le> 18014398509481984 * n then B * 2
                else B) 1024"
    if a: "0 < B \<and> n < 2 ^ 53 \<and> B < 2 ^ 53"
  proof -
    from a have "(B * 2) mod 2 ^ 64 = B * 2" by simp
    with a show ?thesis by (simp only: newSize_iff)
  qed
  have 3: "newSize n B = max (B div 2) 1024" if a: "0 < B \<and> B < 2 ^ 53 \<and> 10 * n = 3 * B"
  proof -
    from a have "n < 2 ^ 53" by simp
    moreover from a have "36028797018963968 * n < 14411519022333951 * B" by simp
    ultimately show ?thesis using a by (simp add: newSize_iff)
  qed
  have 4: "forceRehash (SimpleHashTable_init m :: ('kv, 'k, 'r) table)
           = Some ((SimpleHashTable_init (m div 2))\<lparr>rehashCounter := 1\<rparr>)" if m: "m < 2 ^ 53"
  proof -
    let ?B = "if m < 1024 then 1024 else m"
    have "newSize 0 ?B = max (?B div 2) 1024" using m by (simp add: newSize_iff)
    then have n: "newSize 0 ?B = (if m div 2 < 1024 then 1024 else m div 2)" by auto
    show ?thesis
      using rebalance_all_empty [of "SimpleHashTable_init m :: ('kv, 'k, 'r) table" ?B] n
      by (simp add: forceRehash_def SimpleHashTable_init_def Let_def)
  qed
  have 5: "forceRehash (SimpleHashTable :: ('kv, 'k, 'r) table)
         = Some ((SimpleHashTable_init 0)\<lparr>rehashCounter := 1\<rparr>)"
    using rebalance_all_empty [of "SimpleHashTable :: ('kv, 'k, 'r) table" 0]
    by (simp add: forceRehash_def SimpleHashTable_def SimpleHashTable_init_def Let_def newSize_0)
  show ?thesis
    using 1 2 3 4 5 newSize_0 [of n] by blast
qed

theorem rehash_bucket_count_witness:
  "getTotalBuckets trunc_after = newSize (length (arr trunc_before)) (getTotalBuckets trunc_before)
   \<and> arr trunc_after = arr trunc_before
   \<and> newSize 1 2050 = 1025
   \<and> newSize 900 3000 = 1500
   \<and> newSize 1500 3000 = 3000
   \<and> newSize 2500 3000 = 6000
   \<and> forceRehash (SimpleHashTable_init 5000 :: (64 word \<times> string, 64 word, 32) table)
       = Some ((SimpleHashTable_init 2500)\<lparr>rehashCounter := 1\<rparr>)"
  using rehash_bucket_count [of trunc_before 2050 1 5000]
    rehash_bucket_count [of trunc_before 3000 900 5000]
    rehash_bucket_count [of trunc_before 3000 1500 5000]
    rehash_bucket_count [of trunc_before 3000 2500 5000] trunc_rehash
  by simp

section \<open>C5: the first rehash\<close>




end
